theory Spec2Isabelle
  imports Main "HOL-Library.AList" "HOL-Library.List_Lexorder" "HOL-Library.Char_ord"
begin

section \<open>Tokens and phrases\<close>

text \<open>
  The token kinds of the scanner. A token carries its kind and the byte offsets
  \<open>first_white\<close>, \<open>first\<close> and \<open>last\<close> into the script (the selectors
  \<open>tok_first_white\<close>, \<open>tok_first\<close>, \<open>tok_last\<close>).
\<close>

datatype token_kind =
    k_end | k_missing | k_phrase | k_num | k_ident | k_string
  | k_lparen | k_rparen | k_lbracket | k_rbracket | k_lbrace | k_rbrace
  | k_comma | k_semicolon
  | k_right_arrow | k_left_call | k_right_call | k_equate | k_colon
  | k_range | k_open_range | k_by | k_dot | k_apostrophe | k_ellipsis
  | k_power | k_plus | k_minus | k_times | k_over
  | k_equal | k_not_equal | k_less | k_greater | k_less_or_equal | k_greater_or_equal
  | k_and | k_or | k_not
  | k_if | k_else | k_for | k_let

datatype token = Token (kind: token_kind) (tok_first_white: nat) (tok_first: nat) (tok_last: nat)

text \<open>
  Modelled from the spec: the default-constructed token \<open>Token{}\<close> (its declaration is
  not part of the sources). The spec says that a separator of kind \<open>k_missing\<close> marks
  "no separator after last", and the parser stores \<open>{}\<close> there.
\<close>

definition Token_default :: token where
  "Token_default = Token k_missing 0 0 0"

text \<open>An Atom is an interned name, compared by content.\<close>

type_synonym atom = string

text \<open>
  The phrase tree. Leaves keep their token (the location) and, where the analyzer reads
  it, the lexeme \<open>location().range()\<close>. The delimited phrases and the comma and semicolon
  phrases hold their \<open>args_\<close>, a sequence of \<open>{expr_, comma_}\<close> pairs. \<open>Let_Phrase\<close> and
  \<open>For_Phrase\<close> hold a \<open>Paren_Phrase\<close> as \<open>args_\<close>, given here by its three fields.
  \<open>Lambda_Phrase\<close> carries the mutable flag \<open>recursive_\<close>. \<open>Bracket_Phrase\<close> is the
  analyzer's \<open>List_Phrase\<close>, \<open>Brace_Phrase\<close> its \<open>Record_Phrase\<close>.
\<close>

datatype phrase =
    Identifier token atom
  | Numeral token string
  | String_Phrase token string
  | Empty_Phrase token
  | Unary_Phrase token phrase
  | Binary_Phrase phrase token phrase
  | Paren_Phrase token "(phrase \<times> token) list" token
  | Bracket_Phrase token "(phrase \<times> token) list" token
  | Brace_Phrase token "(phrase \<times> token) list" token
  | Comma_Phrase "(phrase \<times> token) list"
  | Semicolon_Phrase "(phrase \<times> token) list"
  | If_Phrase token phrase phrase token "phrase option"
  | For_Phrase token token "(phrase \<times> token) list" token phrase
  | Let_Phrase token token "(phrase \<times> token) list" token phrase
  | Lambda_Phrase phrase token phrase bool
  | Range_Phrase phrase token phrase token "phrase option"
  | Definition_Phrase phrase token phrase
  | Call_Phrase phrase phrase token
  | Program_Phrase phrase token
  | Module_Phrase phrase

section \<open>Values and meanings\<close>

text \<open>
  A number is an IEEE double. Its bits are never inspected by the analyzer, so a number
  is kept by its origin: the lexeme handed to \<open>strtod\<close>, or a builtin constant.
\<close>

datatype number = Strtod string | Pi | Two_Pi | Infinity

text \<open>
  Values and meanings are mutually recursive: a \<open>Constant\<close> holds a value, and the
  values \<open>Lambda\<close> and \<open>Thunk\<close> hold an operation. Every meaning keeps its source phrase
  as first field. A \<open>Lambda_Expr\<close> is (source, body, nonlocals, nargs, nslots); its
  nonlocals, a \<open>List_Expr\<close> with the same source, are given by their elements, and so
  are the elements of a \<open>Module_Expr\<close>, which is (source, dictionary, slots, elements,
  frame_nslots). \<open>Echo_Metafunction\<close> is the one meaning that is not an operation.
\<close>

datatype "value" =
    Null_Value
  | Bool_Value bool
  | Num_Value number
  | String_Value string
  | Function_Value string
  | Lambda meaning nat nat
  | Thunk meaning
and meaning =
    Constant phrase "value"
  | Not_Expr phrase meaning
  | Prefix_Expr phrase token_kind meaning
  | Infix_Expr phrase token_kind meaning meaning
  | Or_Expr phrase meaning meaning
  | And_Expr phrase meaning meaning
  | Equal_Expr phrase meaning meaning
  | Not_Equal_Expr phrase meaning meaning
  | Less_Expr phrase meaning meaning
  | Greater_Expr phrase meaning meaning
  | Less_Or_Equal_Expr phrase meaning meaning
  | Greater_Or_Equal_Expr phrase meaning meaning
  | Power_Expr phrase meaning meaning
  | Dot_Expr phrase meaning atom
  | At_Expr phrase meaning meaning
  | If_Expr phrase meaning meaning
  | If_Else_Expr phrase meaning meaning meaning
  | Let_Expr phrase nat "value list" meaning
  | For_Expr phrase nat meaning meaning
  | Range_Gen phrase meaning meaning "meaning option"
  | List_Expr phrase "meaning list"
  | Sequence_Expr phrase "meaning list"
  | Record_Expr phrase "(atom \<times> meaning) list"
  | Lambda_Expr phrase meaning "meaning list" nat nat
  | Call_Expr phrase meaning phrase "meaning list"
  | Module_Expr phrase "(atom \<times> nat) list" "value list" "meaning list" nat
  | Echo_Action phrase "meaning list"
  | Arg_Ref phrase nat
  | Let_Ref phrase nat
  | Module_Ref phrase nat
  | Nonlocal_Ref phrase nat
  | Nonlocal_Function_Ref phrase nat
  | Echo_Metafunction phrase

section \<open>Errors\<close>

text \<open>
  An exception is raised with a context (\<open>At_Phrase\<close> or \<open>At_Token\<close>; the environment
  or scanner the context also holds is only used to print a stack trace) and a message.
  Four more outcomes end a run of the model: the \<open>std::bad_cast\<close> of a failed
  reference cast, a failed \<open>assert\<close>, undefined behaviour (a call through a null
  \<open>parent_\<close> pointer, \<open>front()\<close> of an empty vector), and the analysis of a phrase
  whose \<open>analyze\<close> function is defined outside the analyzer's source file.
\<close>

datatype diag_context = At_Phrase phrase | At_Token token

datatype exception =
    Exception diag_context string
  | Bad_Cast
  | Assertion_Failed
  | Undefined_Behaviour
  | Not_In_Source phrase

section \<open>Environments\<close>

text \<open>
  A builtin is either a \<open>Builtin_Value\<close> or the \<open>Builtin_Meaning\<close> of \<open>echo\<close>. An
  \<open>Atom_Map\<close> is an association list searched with \<open>map_of\<close>; a key is bound once,
  except where the source assigns through \<open>operator[]\<close> without a test.
\<close>

datatype builtin = Builtin_Value "value" | Builtin_Echo

type_synonym namespace = "(atom \<times> builtin) list"

text \<open>
  \<open>Builtin_Value::to_meaning\<close> is in the sources. Modelled from the spec: the
  \<open>to_meaning\<close> of \<open>Builtin_Meaning<Echo_Metafunction>\<close> (its declaration is not part
  of the sources) yields "a Metafunction instance".
\<close>

fun to_meaning :: "builtin \<Rightarrow> phrase \<Rightarrow> meaning" where
  "to_meaning (Builtin_Value v) ident = Constant ident v"
| "to_meaning Builtin_Echo ident = Echo_Metafunction ident"

definition builtin_namespace :: namespace where
  "builtin_namespace =
    [(''pi'', Builtin_Value (Num_Value Pi)),
     (''tau'', Builtin_Value (Num_Value Two_Pi)),
     (''inf'', Builtin_Value (Num_Value Infinity)),
     (''null'', Builtin_Value Null_Value),
     (''false'', Builtin_Value (Bool_Value False)),
     (''true'', Builtin_Value (Bool_Value True)),
     (''sqrt'', Builtin_Value (Function_Value ''sqrt'')),
     (''abs'', Builtin_Value (Function_Value ''abs'')),
     (''max'', Builtin_Value (Function_Value ''max'')),
     (''min'', Builtin_Value (Function_Value ''min'')),
     (''norm'', Builtin_Value (Function_Value ''norm'')),
     (''len'', Builtin_Value (Function_Value ''len'')),
     (''file'', Builtin_Value (Function_Value ''file'')),
     (''shape2d'', Builtin_Value (Function_Value ''shape2d'')),
     (''echo'', Builtin_Echo)]"

text \<open>
  \<open>Bindings\<close>: the dictionary from names to slots, the next slot, and the definiens of
  each slot.
\<close>

datatype bindings =
  Bindings (dictionary: "(atom \<times> nat) list") (cur_position: nat) (slot_phrases: "phrase list")

text \<open>
  The scopes, one per subclass of \<open>Environ\<close>, with the fields each adds:
  \<open>Arg_Environ\<close> has \<open>names_\<close>, \<open>nonlocal_dictionary_\<close>, \<open>nonlocal_exprs_\<close> and
  \<open>recursive_\<close>; \<open>Let_Environ\<close> maps a name to its \<open>Binding\<close> (slot and definiens);
  \<open>For_Environ\<close> has \<open>name_\<close> and \<open>slot_\<close>. An environment is a scope with its
  counters and its parent pointer. A lookup can change the captures of an enclosing
  \<open>Arg_Environ\<close>, so every operation returns the environment it was given, updated.
\<close>

datatype scope =
    Builtin_Environ namespace
  | Bindings_Environ bindings
  | Arg_Environ "(atom \<times> nat) list" "(atom \<times> nat) list" "meaning list" bool
  | Let_Environ "(atom \<times> nat \<times> phrase) list"
  | For_Environ atom nat

datatype environ =
  Environ (scope: scope) (frame_nslots: nat) (frame_maxslots: nat) (parent: "environ option")

fun is_Constant :: "meaning \<Rightarrow> bool" where
  "is_Constant (Constant src v) = True"
| "is_Constant m = False"

fun is_Operation :: "meaning \<Rightarrow> bool" where
  "is_Operation (Echo_Metafunction src) = False"
| "is_Operation m = True"

fun is_Lambda_Phrase :: "phrase \<Rightarrow> bool" where
  "is_Lambda_Phrase (Lambda_Phrase l t r f) = True"
| "is_Lambda_Phrase p = False"

text \<open>\<open>Bindings::is_recursive_function\<close>; the source reads the slot unchecked.\<close>

definition is_recursive_function :: "bindings \<Rightarrow> nat \<Rightarrow> bool" where
  "is_recursive_function b slot = is_Lambda_Phrase (slot_phrases b ! slot)"

text \<open>
  \<open>single_lookup\<close> of each scope and \<open>Environ::lookup\<close>, for the identifier with
  token \<open>t\<close> and atom \<open>a\<close>. The loop of \<open>lookup\<close> over the parent chain is the
  recursion on the parent; at the end of the chain it throws. A \<open>single_lookup\<close> that
  answers \<open>None\<close> is the source's \<open>nullptr\<close>.
\<close>

fun single_lookup :: "environ \<Rightarrow> token \<Rightarrow> atom \<Rightarrow> exception + (meaning option \<times> environ)"
and lookup :: "environ \<Rightarrow> token \<Rightarrow> atom \<Rightarrow> exception + (meaning \<times> environ)"
where
  "single_lookup (Environ (Builtin_Environ names) ns ms par) t a =
     (case map_of names a of
        Some b \<Rightarrow> Inr (Some (to_meaning b (Identifier t a)), Environ (Builtin_Environ names) ns ms par)
      | None \<Rightarrow> Inr (None, Environ (Builtin_Environ names) ns ms par))"
| "single_lookup (Environ (Bindings_Environ b) ns ms par) t a =
     (case map_of (dictionary b) a of
        Some slot \<Rightarrow>
          if is_recursive_function b slot
          then Inr (Some (Nonlocal_Function_Ref (Identifier t a) slot), Environ (Bindings_Environ b) ns ms par)
          else Inr (Some (Module_Ref (Identifier t a) slot), Environ (Bindings_Environ b) ns ms par)
      | None \<Rightarrow> Inr (None, Environ (Bindings_Environ b) ns ms par))"
| "single_lookup (Environ (Let_Environ names) ns ms par) t a =
     (case map_of names a of
        Some (slot, ph) \<Rightarrow> Inr (Some (Let_Ref (Identifier t a) slot), Environ (Let_Environ names) ns ms par)
      | None \<Rightarrow> Inr (None, Environ (Let_Environ names) ns ms par))"
| "single_lookup (Environ (For_Environ name slot) ns ms par) t a =
     (if a = name
      then Inr (Some (Let_Ref (Identifier t a) slot), Environ (For_Environ name slot) ns ms par)
      else Inr (None, Environ (For_Environ name slot) ns ms par))"
| "single_lookup (Environ (Arg_Environ names nd ne recursive) ns ms par) t a =
     (case map_of names a of
        Some slot \<Rightarrow>
          Inr (Some (Arg_Ref (Identifier t a) slot), Environ (Arg_Environ names nd ne recursive) ns ms par)
      | None \<Rightarrow>
          if recursive then Inr (None, Environ (Arg_Environ names nd ne recursive) ns ms par)
          else
            (case map_of nd a of
               Some n \<Rightarrow>
                 Inr (Some (Nonlocal_Ref (Identifier t a) n),
                      Environ (Arg_Environ names nd ne recursive) ns ms par)
             | None \<Rightarrow>
                 (case par of
                    None \<Rightarrow> Inl Undefined_Behaviour
                  | Some p \<Rightarrow>
                      (case lookup p t a of
                         Inl e \<Rightarrow> Inl e
                       | Inr (m, p') \<Rightarrow>
                           if is_Constant m
                           then Inr (Some m, Environ (Arg_Environ names nd ne recursive) ns ms (Some p'))
                           else if is_Operation m
                           then Inr (Some (Nonlocal_Ref (Identifier t a) (length ne)),
                                     Environ (Arg_Environ names (nd @ [(a, length ne)]) (ne @ [m]) recursive)
                                       ns ms (Some p'))
                           else Inr (Some m, Environ (Arg_Environ names nd ne recursive) ns ms (Some p'))))))"
| "lookup (Environ sc ns ms par) t a =
     (case single_lookup (Environ sc ns ms par) t a of
        Inl e \<Rightarrow> Inl e
      | Inr (Some m, env') \<Rightarrow> Inr (m, env')
      | Inr (None, env') \<Rightarrow>
          (case par of
             None \<Rightarrow> Inl (Exception (At_Phrase (Identifier t a)) (a @ '': not defined''))
           | Some p \<Rightarrow>
               (case lookup p t a of
                  Inl e \<Rightarrow> Inl e
                | Inr (m, p') \<Rightarrow> Inr (m, Environ sc ns ms (Some p')))))"

section \<open>Definitions\<close>

text \<open>
  A \<open>Definition\<close> is the name (an identifier, by token and atom) and the definiens.
  \<open>Phrase::analyze_def\<close> answers \<open>nullptr\<close> (here \<open>None\<close>) for every phrase but a
  \<open>Definition_Phrase\<close>. The \<open>Lambda_Phrase\<close> built for \<open>f(x) = body\<close> starts with
  \<open>recursive_\<close> false.
\<close>

datatype defn = Definition token atom phrase

fun analyze_def :: "phrase \<Rightarrow> exception + defn option" where
  "analyze_def (Definition_Phrase (Identifier t a) eq right) = Inr (Some (Definition t a right))"
| "analyze_def (Definition_Phrase (Call_Phrase (Identifier t a) args tok) eq right) =
     Inr (Some (Definition t a (Lambda_Phrase args eq right False)))"
| "analyze_def (Definition_Phrase (Call_Phrase function args tok) eq right) =
     Inl (Exception (At_Phrase function) ''not an identifier'')"
| "analyze_def (Definition_Phrase left eq right) =
     Inl (Exception (At_Phrase left) ''invalid definiendum'')"
| "analyze_def p = Inr None"

section \<open>Lambda parameters\<close>

text \<open>
  Phase 1 of \<open>Lambda_Phrase::analyze\<close>: the dictionary of parameters. The assignment
  \<open>params[id->atom_] = slot++\<close> overwrites the slot of a name that is already bound.
\<close>

fun params_loop :: "(phrase \<times> token) list \<Rightarrow> (atom \<times> nat) list \<Rightarrow> nat \<Rightarrow> exception + (atom \<times> nat) list" where
  "params_loop [] params slot = Inr params"
| "params_loop ((Identifier t a, c) # rest) params slot =
     params_loop rest (AList.update a slot params) (Suc slot)"
| "params_loop ((p, c) # rest) params slot = Inl (Exception (At_Phrase p) ''not a parameter'')"

fun lambda_params :: "phrase \<Rightarrow> exception + (atom \<times> nat) list" where
  "lambda_params (Identifier t a) = Inr (AList.update a 0 [])"
| "lambda_params (Paren_Phrase lp args rp) = params_loop args [] 0"
| "lambda_params left = Inl (Exception (At_Phrase left) ''not a parameter'')"

section \<open>Bindings of a module and of let\<close>

text \<open>
  \<open>Bindings::add_definition\<close>. The definiens is shared with the phrase tree, and the
  flag \<open>recursive_\<close> is set on the phrase itself: \<open>set_recursive\<close> is the phrase after
  the assignment.
\<close>

fun set_recursive :: "phrase \<Rightarrow> phrase" where
  "set_recursive (Lambda_Phrase l t r f) = Lambda_Phrase l t r True"
| "set_recursive p = p"

fun add_definition :: "defn \<Rightarrow> bindings \<Rightarrow> exception + bindings" where
  "add_definition (Definition t a definiens) (Bindings dict cur phrases) =
     (case map_of dict a of
        Some slot \<Rightarrow> Inl (Exception (At_Phrase (Identifier t a)) (a @ '': multiply defined''))
      | None \<Rightarrow> Inr (Bindings (dict @ [(a, cur)]) (Suc cur) (phrases @ [set_recursive definiens])))"

text \<open>
  The adapter \<open>Statements\<close>: the elements of a semicolon phrase, or the phrase alone.
  Its constructor calls \<open>front()\<close> on the arguments, undefined when there are none.
\<close>

fun Statements :: "phrase \<Rightarrow> exception + phrase list" where
  "Statements (Semicolon_Phrase []) = Inl Undefined_Behaviour"
| "Statements (Semicolon_Phrase args) = Inr (map fst args)"
| "Statements p = Inr [p]"

text \<open>
  Phase 1 of \<open>Module_Phrase::analyze_module\<close>: the loop over the statements, which
  collects the fields and the elements.
\<close>

fun module_fields :: "phrase list \<Rightarrow> bindings \<Rightarrow> phrase list \<Rightarrow> exception + (bindings \<times> phrase list)" where
  "module_fields [] fields elements = Inr (fields, elements)"
| "module_fields (st # rest) fields elements =
     (case analyze_def st of
        Inl e \<Rightarrow> Inl e
      | Inr None \<Rightarrow> module_fields rest fields (elements @ [st])
      | Inr (Some d) \<Rightarrow>
          (case add_definition d fields of
             Inl e \<Rightarrow> Inl e
           | Inr fields' \<Rightarrow> module_fields rest fields' elements))"

text \<open>
  The module's own source phrase after phase 1: a definiens that is a lambda of the
  tree (the definition \<open>f = x -> body\<close>) has had its flag set.
\<close>

fun mark_statement :: "phrase \<Rightarrow> phrase" where
  "mark_statement (Definition_Phrase (Identifier t a) eq right) =
     Definition_Phrase (Identifier t a) eq (set_recursive right)"
| "mark_statement p = p"

fun mark_body :: "phrase \<Rightarrow> phrase" where
  "mark_body (Semicolon_Phrase args) = Semicolon_Phrase (map (\<lambda>(p, c). (mark_statement p, c)) args)"
| "mark_body p = mark_statement p"

text \<open>
  Phase 1 of \<open>Let_Phrase::analyze\<close>: one \<open>Binding\<close> (slot, definiens) per definition,
  the slots counted up from \<open>slot\<close>.
\<close>

fun let_bindings :: "(phrase \<times> token) list \<Rightarrow> (atom \<times> nat \<times> phrase) list \<Rightarrow> nat \<Rightarrow>
    exception + (atom \<times> nat \<times> phrase) list" where
  "let_bindings [] bindings slot = Inr bindings"
| "let_bindings ((b, c) # rest) bindings slot =
     (case analyze_def b of
        Inl e \<Rightarrow> Inl e
      | Inr None \<Rightarrow> Inl (Exception (At_Phrase b) ''not a definition'')
      | Inr (Some (Definition t a definiens)) \<Rightarrow>
          (case map_of bindings a of
             Some x \<Rightarrow> Inl (Exception (At_Phrase (Identifier t a)) (a @ '': multiply defined''))
           | None \<Rightarrow> let_bindings rest (bindings @ [(a, slot, definiens)]) (Suc slot)))"

section \<open>The analyzer\<close>

fun to_operation :: "exception + (meaning \<times> environ) \<Rightarrow> exception + (meaning \<times> environ)" where
  "to_operation (Inl e) = Inl e"
| "to_operation (Inr (Echo_Metafunction src, env)) = Inl (Exception (At_Phrase src) ''not an operation'')"
| "to_operation (Inr (m, env)) = Inr (m, env)"

fun foldM_env :: "('a \<Rightarrow> 'c \<Rightarrow> environ \<Rightarrow> exception + ('c \<times> environ)) \<Rightarrow> 'a list \<Rightarrow> 'c \<Rightarrow> environ \<Rightarrow>
    exception + ('c \<times> environ)" where
  "foldM_env f [] acc env = Inr (acc, env)"
| "foldM_env f (x # xs) acc env =
     (case f x acc env of
        Inl e \<Rightarrow> Inl e
      | Inr (acc', env') \<Rightarrow> foldM_env f xs acc' env')"

lemma foldM_env_cong [fundef_cong]:
  assumes "xs = ys" and "acc = acc'" and "env = env'"
    and "\<And>x a e. x \<in> set ys \<Longrightarrow> f x a e = g x a e"
  shows "foldM_env f xs acc env = foldM_env g ys acc' env'"
  using assms(4) unfolding assms(1-3)
  by (induction ys arbitrary: acc' env') (auto split: sum.splits)

definition mapM_env :: "('a \<Rightarrow> environ \<Rightarrow> exception + ('b \<times> environ)) \<Rightarrow> 'a list \<Rightarrow> environ \<Rightarrow>
    exception + ('b list \<times> environ)" where
  "mapM_env f xs env =
     foldM_env (\<lambda>x acc e. case f x e of Inl ex \<Rightarrow> Inl ex | Inr (y, e') \<Rightarrow> Inr (acc @ [y], e')) xs [] env"

lemma mapM_env_cong [fundef_cong]:
  assumes "xs = ys" and "env = env'"
    and "\<And>x e. x \<in> set ys \<Longrightarrow> f x e = g x e"
  shows "mapM_env f xs env = mapM_env g ys env'"
  unfolding mapM_env_def
  by (rule foldM_env_cong) (simp_all add: assms)

definition ordered :: "bool \<Rightarrow> ('a \<Rightarrow> environ \<Rightarrow> exception + ('b \<times> environ)) \<Rightarrow> 'a list \<Rightarrow> environ \<Rightarrow>
    exception + ('b list \<times> environ)" where
  "ordered rtl f xs env =
     (if rtl
      then (case mapM_env f (rev xs) env of Inl e \<Rightarrow> Inl e | Inr (ys, env') \<Rightarrow> Inr (rev ys, env'))
      else mapM_env f xs env)"

lemma ordered_cong [fundef_cong]:
  assumes "rtl = rtl'" and "xs = ys" and "env = env'"
    and "\<And>x e. x \<in> set ys \<Longrightarrow> f x e = g x e"
  shows "ordered rtl f xs env = ordered rtl' g ys env'"
proof -
  have "mapM_env f (rev ys) env' = mapM_env g (rev ys) env'"
    by (rule mapM_env_cong) (simp_all add: assms(4))
  moreover have "mapM_env f ys env' = mapM_env g ys env'"
    by (rule mapM_env_cong) (simp_all add: assms(4))
  ultimately show ?thesis
    by (simp add: ordered_def assms(1-3))
qed

text \<open>
  The operands of a constructor call such as
  \<open>make<Infix_Expr>(src, op, analyze_op(left), analyze_op(right))\<close> are analysed in an
  order the language leaves to the compiler: \<open>rtl\<close> says whether it is right to left.
\<close>

datatype dot_rhs = Dot_Atom atom | Dot_Index phrase | Dot_Bad_List | Dot_Other

fun dot_rhs_of :: "phrase \<Rightarrow> dot_rhs" where
  "dot_rhs_of (Identifier t a) = Dot_Atom a"
| "dot_rhs_of (Bracket_Phrase lb [(e, c)] rb) = (if kind c = k_missing then Dot_Index e else Dot_Bad_List)"
| "dot_rhs_of (Bracket_Phrase lb args rb) = Dot_Bad_List"
| "dot_rhs_of p = Dot_Other"

definition msg_after_dot :: string where
  "msg_after_dot = ''invalid expression after '.'' @ [CHR 0x27]"

definition binary_node :: "token_kind \<Rightarrow> phrase \<Rightarrow> meaning \<Rightarrow> meaning \<Rightarrow> meaning" where
  "binary_node k src l r =
     (if k = k_or then Or_Expr src l r
      else if k = k_and then And_Expr src l r
      else if k = k_equal then Equal_Expr src l r
      else if k = k_not_equal then Not_Equal_Expr src l r
      else if k = k_less then Less_Expr src l r
      else if k = k_greater then Greater_Expr src l r
      else if k = k_less_or_equal then Less_Or_Equal_Expr src l r
      else if k = k_greater_or_equal then Greater_Or_Equal_Expr src l r
      else if k = k_power then Power_Expr src l r
      else Infix_Expr src k l r)"

fun paren_args :: "phrase \<Rightarrow> (phrase \<times> token) list option" where
  "paren_args (Paren_Phrase lp args rp) = Some args"
| "paren_args p = None"

fun definition_parts :: "phrase \<Rightarrow> (phrase \<times> phrase) option" where
  "definition_parts (Definition_Phrase left eq right) = Some (left, right)"
| "definition_parts p = None"

fun identifier_atom :: "phrase \<Rightarrow> atom option" where
  "identifier_atom (Identifier t a) = Some a"
| "identifier_atom p = None"

definition for_definition :: "token \<Rightarrow> (phrase \<times> token) list \<Rightarrow> token \<Rightarrow> exception + (atom \<times> phrase)" where
  "for_definition lp args rp =
     (if length args \<noteq> 1
      then Inl (Exception (At_Phrase (Paren_Phrase lp args rp)) ''for: malformed argument'')
      else
        (case definition_parts (fst (args ! 0)) of
           None \<Rightarrow> Inl (Exception (At_Phrase (fst (args ! 0))) ''for: not a definition'')
         | Some (left, right) \<Rightarrow>
             (case identifier_atom left of
                None \<Rightarrow> Inl (Exception (At_Phrase left) ''for: not an identifier'')
              | Some name \<Rightarrow> Inr (name, right))))"

fun lambda_value :: "meaning \<Rightarrow> exception + value" where
  "lambda_value (Lambda_Expr src body nonlocals nargs nslots) = Inr (Lambda body nargs nslots)"
| "lambda_value m = Inl Bad_Cast"

text \<open>
  The constructors of the scopes: a new environment with its counters and its parent.
  Those of \<open>Arg_Environ\<close>, \<open>Let_Environ\<close> and \<open>For_Environ\<close> are in the sources.
\<close>

definition make_Arg_Environ :: "environ \<Rightarrow> (atom \<times> nat) list \<Rightarrow> bool \<Rightarrow> environ" where
  "make_Arg_Environ p names recursive =
     Environ (Arg_Environ names [] [] recursive) (length names) (length names) (Some p)"

definition make_Let_Environ :: "environ \<Rightarrow> (atom \<times> nat \<times> phrase) list \<Rightarrow> environ" where
  "make_Let_Environ p n =
     Environ (Let_Environ n) (frame_nslots p + length n)
       (max (frame_maxslots p) (frame_nslots p + length n)) (Some p)"

definition make_For_Environ :: "environ \<Rightarrow> atom \<Rightarrow> nat \<Rightarrow> environ" where
  "make_For_Environ p name slot =
     Environ (For_Environ name slot) (frame_nslots p + 1)
       (max (frame_maxslots p) (frame_nslots p + 1)) (Some p)"

text \<open>
  Modelled from the spec: the constructor of \<open>Bindings::Environ\<close> (its declaration is
  not part of the sources). The spec says that "a child scope initializes both from
  its parent's current counters", and a module binds no slot of the frame.
\<close>

definition make_Bindings_Environ :: "environ \<Rightarrow> bindings \<Rightarrow> environ" where
  "make_Bindings_Environ p b = Environ (Bindings_Environ b) (frame_nslots p) (frame_maxslots p) (Some p)"

fun parent_of :: "environ \<Rightarrow> environ \<Rightarrow> environ" where
  "parent_of env (Environ sc ns ms (Some p)) = p"
| "parent_of env (Environ sc ns ms None) = env"

fun nonlocal_exprs :: "environ \<Rightarrow> meaning list" where
  "nonlocal_exprs (Environ (Arg_Environ names nd ne recursive) ns ms par) = ne"
| "nonlocal_exprs env = []"

fun set_frame_maxslots :: "environ \<Rightarrow> nat \<Rightarrow> environ" where
  "set_frame_maxslots (Environ sc ns ms par) n = Environ sc ns n par"

fun opt_list :: "'a option \<Rightarrow> 'a list" where
  "opt_list None = []"
| "opt_list (Some x) = [x]"

text \<open>
  \<open>Numeral::analyze\<close> hands the lexeme to \<open>strtod\<close> of the C library and asserts
  that \<open>strtod\<close> has converted all of it. \<open>strtod_end\<close> is the number of characters
  that \<open>strtod\<close> converts (the offset of \<open>endptr\<close>), in the "C" locale: white space, a
  sign, and then the longest hexadecimal or decimal floating constant, \<open>inf\<close>,
  \<open>infinity\<close>, \<open>nan\<close> or \<open>nan(...)\<close>; when there is none, nothing is converted.
\<close>

definition is_space :: "char \<Rightarrow> bool" where
  "is_space c = (c \<in> set [CHR 0x20, CHR 0x09, CHR 0x0A, CHR 0x0B, CHR 0x0C, CHR 0x0D])"

definition is_digit :: "char \<Rightarrow> bool" where
  "is_digit c = (c \<in> set ''0123456789'')"

definition is_xdigit :: "char \<Rightarrow> bool" where
  "is_xdigit c = (c \<in> set ''0123456789abcdefABCDEF'')"

definition is_nchar :: "char \<Rightarrow> bool" where
  "is_nchar c = (c \<in> set ''0123456789_abcdefghijklmnopqrstuvwxyzABCDEFGHIJKLMNOPQRSTUVWXYZ'')"

fun starts_ci :: "(char \<times> char) list \<Rightarrow> string \<Rightarrow> bool" where
  "starts_ci [] s = True"
| "starts_ci ((l, u) # p) [] = False"
| "starts_ci ((l, u) # p) (c # s) = ((c = l \<or> c = u) \<and> starts_ci p s)"

definition exponent_len :: "char \<Rightarrow> char \<Rightarrow> string \<Rightarrow> nat" where
  "exponent_len l u s =
     (if starts_ci [(l, u)] s then
        (let sg = (if starts_ci [(CHR ''+'', CHR ''-'')] (tl s) then 1 else 0);
             k = length (takeWhile is_digit (drop (Suc sg) s))
         in if k = 0 then 0 else Suc sg + k)
      else 0)"

definition mantissa_len :: "(char \<Rightarrow> bool) \<Rightarrow> string \<Rightarrow> nat" where
  "mantissa_len dig s =
     (let n1 = length (takeWhile dig s);
          dot = starts_ci [(CHR ''.'', CHR ''.'')] (drop n1 s);
          n2 = (if dot then length (takeWhile dig (drop (Suc n1) s)) else 0)
      in if n1 + n2 = 0 then 0 else n1 + (if dot then Suc n2 else 0))"

definition decimal_len :: "string \<Rightarrow> nat" where
  "decimal_len s =
     (let n = mantissa_len is_digit s
      in if n = 0 then 0 else n + exponent_len (CHR ''e'') (CHR ''E'') (drop n s))"

definition hex_len :: "string \<Rightarrow> nat" where
  "hex_len s =
     (if starts_ci [(CHR ''0'', CHR ''0''), (CHR ''x'', CHR ''X'')] s then
        (let n = mantissa_len is_xdigit (drop 2 s)
         in if n = 0 then 0 else 2 + n + exponent_len (CHR ''p'') (CHR ''P'') (drop (2 + n) s))
      else 0)"

definition nan_len :: "string \<Rightarrow> nat" where
  "nan_len s =
     (if starts_ci [(CHR ''n'', CHR ''N''), (CHR ''a'', CHR ''A''), (CHR ''n'', CHR ''N'')] s then
        (let k = length (takeWhile is_nchar (drop 4 s))
         in if starts_ci [(CHR ''('', CHR ''('')] (drop 3 s) \<and>
               starts_ci [(CHR '')'', CHR '')'')] (drop (4 + k) s)
            then 5 + k else 3)
      else 0)"

definition inf_len :: "string \<Rightarrow> nat" where
  "inf_len s =
     (if starts_ci [(CHR ''i'', CHR ''I''), (CHR ''n'', CHR ''N''), (CHR ''f'', CHR ''F''),
                    (CHR ''i'', CHR ''I''), (CHR ''n'', CHR ''N''), (CHR ''i'', CHR ''I''),
                    (CHR ''t'', CHR ''T''), (CHR ''y'', CHR ''Y'')] s then 8
      else if starts_ci [(CHR ''i'', CHR ''I''), (CHR ''n'', CHR ''N''), (CHR ''f'', CHR ''F'')] s then 3
      else 0)"

definition subject_len :: "string \<Rightarrow> nat" where
  "subject_len s =
     (if hex_len s \<noteq> 0 then hex_len s
      else if decimal_len s \<noteq> 0 then decimal_len s
      else if inf_len s \<noteq> 0 then inf_len s
      else nan_len s)"

definition strtod_end :: "string \<Rightarrow> nat" where
  "strtod_end str =
     (let ws = length (takeWhile is_space str);
          sg = (if starts_ci [(CHR ''+'', CHR ''-'')] (drop ws str) then 1 else 0);
          n = subject_len (drop (ws + sg) str)
      in if n = 0 then 0 else ws + sg + n)"

lemmas strtod_defs = strtod_end_def subject_len_def inf_len_def nan_len_def hex_len_def
  decimal_len_def mantissa_len_def exponent_len_def is_space_def is_digit_def is_xdigit_def
  is_nchar_def Let_def

lemma strtod_end_digit [simp]:
  "strtod_end ''0'' = 1" "strtod_end ''1'' = 1" "strtod_end ''2'' = 1"
  by (simp_all add: strtod_defs)

text \<open>
  Modelled from the spec: \<open>Atom_Map\<close> (its declaration is not part of the sources),
  the map from names that holds the bindings of a \<open>let\<close>. The loop
  \<open>for (auto b : bindings)\<close> of phase 2 of \<open>Let_Phrase::analyze\<close> visits the bindings
  in the order of the map, taken here to be the order of the names
  (\<open>sort_key fst\<close>); each value is stored at the index of its slot, whatever the
  order.
\<close>

lemma size_arg_less [termination_simp]:
  "(p, c) \<in> set args \<Longrightarrow> size p < Suc (size_list (size_prod size (\<lambda>x. 0)) args)"
  by (induction args) auto

function analyze :: "bool \<Rightarrow> phrase \<Rightarrow> environ \<Rightarrow> exception + (meaning \<times> environ)" where
  "analyze rtl (Identifier t a) env = lookup env t a"
| "analyze rtl (Numeral t str) env =
     (if strtod_end str = length str
      then Inr (Constant (Numeral t str) (Num_Value (Strtod str)), env)
      else Inl Assertion_Failed)"
| "analyze rtl (String_Phrase t str) env =
     (if 2 \<le> length str \<and> hd str = CHR 0x22 \<and> last str = CHR 0x22
      then Inr (Constant (String_Phrase t str) (String_Value (butlast (tl str))), env)
      else Inl Assertion_Failed)"
| "analyze rtl (Empty_Phrase t) env = Inl (Not_In_Source (Empty_Phrase t))"
| "analyze rtl (Program_Phrase body t) env = Inl (Not_In_Source (Program_Phrase body t))"
| "analyze rtl (Unary_Phrase op arg) env =
     (case to_operation (analyze rtl arg env) of
        Inl e \<Rightarrow> Inl e
      | Inr (m, env') \<Rightarrow>
          Inr (if kind op = k_not then Not_Expr (Unary_Phrase op arg) m
               else Prefix_Expr (Unary_Phrase op arg) (kind op) m, env'))"
| "analyze rtl (Binary_Phrase left op right) env =
     (if kind op = k_dot then
        (case dot_rhs_of right of
           Dot_Atom a \<Rightarrow>
             (case to_operation (analyze rtl left env) of
                Inl e \<Rightarrow> Inl e
              | Inr (l, env') \<Rightarrow> Inr (Dot_Expr (Binary_Phrase left op right) l a, env'))
         | Dot_Index ix \<Rightarrow>
             (case to_operation (analyze rtl ix env) of
                Inl e \<Rightarrow> Inl e
              | Inr (index, env1) \<Rightarrow>
                  (case to_operation (analyze rtl left env1) of
                     Inl e \<Rightarrow> Inl e
                   | Inr (l, env2) \<Rightarrow> Inr (At_Expr (Binary_Phrase left op right) l index, env2)))
         | Dot_Bad_List \<Rightarrow> Inl (Exception (At_Phrase (Binary_Phrase left op right)) ''not an expression'')
         | Dot_Other \<Rightarrow> Inl (Exception (At_Phrase right) msg_after_dot))
      else
        (case ordered rtl (\<lambda>p e. to_operation (analyze rtl p e)) [left, right] env of
           Inl e \<Rightarrow> Inl e
         | Inr (ms, env') \<Rightarrow>
             Inr (binary_node (kind op) (Binary_Phrase left op right) (ms ! 0) (ms ! 1), env')))"
| "analyze rtl (Definition_Phrase left eq right) env =
     Inl (Exception (At_Phrase (Definition_Phrase left eq right)) ''not an operation'')"
| "analyze rtl (Semicolon_Phrase args) env =
     (case args of
        [(p, c)] \<Rightarrow> to_operation (analyze rtl p env)
      | _ \<Rightarrow> Inl (Exception (At_Phrase (Semicolon_Phrase args)) ''; phrase not implemented''))"
| "analyze rtl (Comma_Phrase args) env =
     (if length args = 1 \<and> kind (snd (args ! 0)) = k_missing
      then to_operation (analyze rtl (fst (args ! 0)) env)
      else
        (case mapM_env (\<lambda>(p, c) e. to_operation (analyze rtl p e)) args env of
           Inl e \<Rightarrow> Inl e
         | Inr (seq, env') \<Rightarrow> Inr (Sequence_Expr (Comma_Phrase args) seq, env')))"
| "analyze rtl (Paren_Phrase lp args rp) env =
     (if length args = 1 \<and> kind (snd (args ! 0)) = k_missing
      then to_operation (analyze rtl (fst (args ! 0)) env)
      else
        (case mapM_env (\<lambda>(p, c) e. to_operation (analyze rtl p e)) args env of
           Inl e \<Rightarrow> Inl e
         | Inr (seq, env') \<Rightarrow> Inr (Sequence_Expr (Paren_Phrase lp args rp) seq, env')))"
| "analyze rtl (Bracket_Phrase lb args rb) env =
     (case mapM_env (\<lambda>(p, c) e. to_operation (analyze rtl p e)) args env of
        Inl e \<Rightarrow> Inl e
      | Inr (list, env') \<Rightarrow> Inr (List_Expr (Bracket_Phrase lb args rb) list, env'))"
| "analyze rtl (Call_Phrase function args tok) env =
     (case analyze rtl function env of
        Inl e \<Rightarrow> Inl e
      | Inr (f, env1) \<Rightarrow>
          (case (case paren_args args of
                   Some patom \<Rightarrow> mapM_env (\<lambda>(p, c) e. to_operation (analyze rtl p e)) patom env1
                 | None \<Rightarrow> mapM_env (\<lambda>p e. to_operation (analyze rtl p e)) [args] env1) of
             Inl e \<Rightarrow> Inl e
           | Inr (argv, env2) \<Rightarrow>
               Inr (if is_Operation f then Call_Expr (Call_Phrase function args tok) f args argv
                    else Echo_Action (Call_Phrase function args tok) argv, env2)))"
| "analyze rtl (Lambda_Phrase left tok right recursive) env =
     (case lambda_params left of
        Inl e \<Rightarrow> Inl e
      | Inr params \<Rightarrow>
          (case to_operation (analyze rtl right (make_Arg_Environ env params recursive)) of
             Inl e \<Rightarrow> Inl e
           | Inr (expr, env2) \<Rightarrow>
               Inr (Lambda_Expr (Lambda_Phrase left tok right recursive) expr (nonlocal_exprs env2)
                      (length params) (frame_maxslots env2),
                    parent_of env env2)))"
| "analyze rtl (Module_Phrase body) env =
     (case Statements body of
        Inl e \<Rightarrow> Inl e
      | Inr stmts \<Rightarrow>
          (case module_fields stmts (Bindings [] 0 []) [] of
             Inl e \<Rightarrow> Inl e
           | Inr (fields, elements) \<Rightarrow>
               (case foldM_env
                       (\<lambda>ph slots e.
                          case to_operation (analyze rtl ph e) of
                            Inl x \<Rightarrow> Inl x
                          | Inr (expr, e') \<Rightarrow>
                              if is_Lambda_Phrase ph
                              then (case lambda_value expr of
                                      Inl x \<Rightarrow> Inl x
                                    | Inr v \<Rightarrow> Inr (slots @ [v], e'))
                              else Inr (slots @ [Thunk expr], e'))
                       (slot_phrases fields) [] (make_Bindings_Environ env fields) of
                  Inl e \<Rightarrow> Inl e
                | Inr (slots, env2) \<Rightarrow>
                    (case mapM_env (\<lambda>ph e. to_operation (analyze rtl ph e)) elements env2 of
                       Inl e \<Rightarrow> Inl e
                     | Inr (xelements, env2') \<Rightarrow>
                         Inr (Module_Expr (Module_Phrase (mark_body body)) (dictionary fields) slots
                                xelements (frame_maxslots env2'),
                              parent_of env env2')))))"
| "analyze rtl (Brace_Phrase lb args rb) env =
     (case foldM_env
             (\<lambda>(p, c) fields e.
                case analyze_def p of
                  Inl x \<Rightarrow> Inl x
                | Inr None \<Rightarrow> Inl (Exception (At_Phrase p) ''not a definition'')
                | Inr (Some (Definition t a definiens)) \<Rightarrow>
                    (case map_of fields a of
                       Some m \<Rightarrow> Inl (Exception (At_Phrase (Identifier t a)) (a @ '': multiply defined''))
                     | None \<Rightarrow>
                         (case to_operation (analyze rtl definiens e) of
                            Inl x \<Rightarrow> Inl x
                          | Inr (m, e') \<Rightarrow> Inr (fields @ [(a, m)], e'))))
             args [] env of
        Inl e \<Rightarrow> Inl e
      | Inr (fields, env') \<Rightarrow> Inr (Record_Expr (Brace_Phrase lb args rb) fields, env'))"
| "analyze rtl (If_Phrase it condition then_expr et else_expr) env =
     (case ordered rtl (\<lambda>p e. to_operation (analyze rtl p e))
             ([condition, then_expr] @ opt_list else_expr) env of
        Inl e \<Rightarrow> Inl e
      | Inr (ms, env') \<Rightarrow>
          Inr (if else_expr = None
               then If_Expr (If_Phrase it condition then_expr et else_expr) (ms ! 0) (ms ! 1)
               else If_Else_Expr (If_Phrase it condition then_expr et else_expr) (ms ! 0) (ms ! 1) (ms ! 2),
               env'))"
| "analyze rtl (Let_Phrase lt lp args rp body) env =
     (case let_bindings args [] (frame_nslots env) of
        Inl e \<Rightarrow> Inl e
      | Inr bindings \<Rightarrow>
          (case foldM_env
                  (\<lambda>(a, slot, ph) values e.
                     case to_operation (analyze rtl ph e) of
                       Inl x \<Rightarrow> Inl x
                     | Inr (expr, e') \<Rightarrow> Inr (values[slot - frame_nslots env := Thunk expr], e'))
                  (sort_key fst bindings) (replicate (length bindings) Null_Value)
                  (make_Let_Environ env bindings) of
             Inl e \<Rightarrow> Inl e
           | Inr (values, env2) \<Rightarrow>
               (case to_operation (analyze rtl body env2) of
                  Inl e \<Rightarrow> Inl e
                | Inr (b, env2') \<Rightarrow>
                    if frame_maxslots env2' < length bindings then Inl Assertion_Failed
                    else Inr (Let_Expr (Let_Phrase lt lp args rp body) (frame_nslots env) values b,
                              set_frame_maxslots (parent_of env env2') (frame_maxslots env2')))))"
| "analyze rtl (For_Phrase ft lp args rp body) env =
     (case for_definition lp args rp of
        Inl e \<Rightarrow> Inl e
      | Inr (name, right) \<Rightarrow>
          (case to_operation (analyze rtl right env) of
             Inl e \<Rightarrow> Inl e
           | Inr (list, env1) \<Rightarrow>
               (case to_operation (analyze rtl body (make_For_Environ env1 name (frame_nslots env1))) of
                  Inl e \<Rightarrow> Inl e
                | Inr (b, body_env) \<Rightarrow>
                    Inr (For_Expr (For_Phrase ft lp args rp body) (frame_nslots env1) list b,
                         set_frame_maxslots (parent_of env1 body_env) (frame_maxslots body_env)))))"
| "analyze rtl (Range_Phrase first_expr op last_expr bt step) env =
     (case ordered rtl (\<lambda>p e. to_operation (analyze rtl p e)) ([first_expr, last_expr] @ opt_list step) env of
        Inl e \<Rightarrow> Inl e
      | Inr (ms, env') \<Rightarrow>
          Inr (Range_Gen (Range_Phrase first_expr op last_expr bt step) (ms ! 0) (ms ! 1)
                 (if step = None then None else Some (ms ! 2)), env'))"
  by pat_completeness auto

lemma analyze_def_size:
  "analyze_def p = Inr (Some (Definition t a d)) \<Longrightarrow> size d < size p"
  by (induction p rule: analyze_def.induct) auto

lemma set_recursive_size [simp]: "size (set_recursive p) = size p"
  by (cases p) auto

lemma add_definition_sizes:
  assumes "add_definition (Definition t a d) fields = Inr fields'"
  shows "slot_phrases fields' = slot_phrases fields @ [set_recursive d]"
  using assms by (cases fields) (auto split: option.splits)

lemma module_fields_sizes:
  assumes "module_fields stmts fields elements = Inr (fields', elements')"
  shows "(\<forall>ph \<in> set (slot_phrases fields').
            ph \<in> set (slot_phrases fields) \<or> (\<exists>st \<in> set stmts. size ph < size st))
         \<and> set elements' \<subseteq> set elements \<union> set stmts"
  using assms
proof (induction stmts arbitrary: fields elements)
  case Nil
  then show ?case by simp
next
  case (Cons st rest)
  show ?case
  proof (cases "analyze_def st")
    case (Inl e)
    with Cons.prems show ?thesis by simp
  next
    case (Inr od)
    show ?thesis
    proof (cases od)
      case None
      with Inr Cons.prems have "module_fields rest fields (elements @ [st]) = Inr (fields', elements')"
        by simp
      from Cons.IH [OF this] show ?thesis by auto
    next
      case (Some d)
      obtain t a ph where d: "d = Definition t a ph" by (cases d)
      from Some Inr Cons.prems obtain f1 where
        f1: "add_definition d fields = Inr f1" and
        rest: "module_fields rest f1 elements = Inr (fields', elements')"
        by (auto split: sum.splits)
      from f1 d have sp: "slot_phrases f1 = slot_phrases fields @ [set_recursive ph]"
        by (simp add: add_definition_sizes)
      from Inr Some d have "size ph < size st"
        by (simp add: analyze_def_size)
      with Cons.IH [OF rest] sp show ?thesis
        by (auto simp: set_recursive_size) 
    qed
  qed
qed

lemma Statements_Semicolon:
  "Statements (Semicolon_Phrase args) = (if args = [] then Inl Undefined_Behaviour else Inr (map fst args))"
  by (cases args) auto

lemma Statements_size:
  assumes "Statements body = Inr stmts" and "st \<in> set stmts"
  shows "size st \<le> size body"
proof (cases "\<exists>args. body = Semicolon_Phrase args")
  case True
  then obtain args where body: "body = Semicolon_Phrase args" by blast
  with assms have "st \<in> fst ` set args"
    by (auto simp: Statements_Semicolon split: if_splits)
  then obtain c where "(st, c) \<in> set args" by auto
  from size_arg_less [OF this] body show ?thesis by simp
next
  case False
  with assms have "st = body" by (cases body) auto
  then show ?thesis by simp
qed

lemma let_bindings_sizes:
  assumes "let_bindings args bs slot = Inr bs'" and "(a, s, ph) \<in> set bs'"
  shows "(a, s, ph) \<in> set bs \<or> (\<exists>(p, c) \<in> set args. size ph < size p)"
  using assms
proof (induction args arbitrary: bs slot)
  case Nil
  then show ?case by simp
next
  case (Cons x rest)
  obtain b c where x: "x = (b, c)" by (cases x)
  from Cons.prems(1) x obtain t n d where
    def: "analyze_def b = Inr (Some (Definition t n d))" and
    rest: "let_bindings rest (bs @ [(n, slot, d)]) (Suc slot) = Inr bs'"
    by (auto split: sum.splits option.splits defn.splits)
  from Cons.IH [OF rest Cons.prems(2)] analyze_def_size [OF def] x show ?case
    by auto
qed

lemma for_definition_size:
  "for_definition lp args rp = Inr (name, right) \<Longrightarrow>
     size right < Suc (size_list (size_prod size (\<lambda>x. 0)) args)"
  apply (cases args)
   apply (simp add: for_definition_def)
  subgoal for x xs
    apply (cases x)
    subgoal for p c
      by (cases p) (auto simp: for_definition_def split: if_splits option.splits)
    done
  done

lemma paren_args_size:
  "paren_args args = Some patom \<Longrightarrow> (p, c) \<in> set patom \<Longrightarrow> size p < size args"
  by (cases args) (auto dest: size_arg_less)

lemma dot_rhs_of_size: "dot_rhs_of right = Dot_Index ix \<Longrightarrow> size ix < size right"
  by (induction right rule: dot_rhs_of.induct) (auto split: if_splits)

lemma single_arg_size:
  "length args = 1 \<Longrightarrow> size (fst (args ! 0)) < Suc (size_list (size_prod size (\<lambda>x. 0)) args)"
  by (cases args) auto

lemma module_slot_size:
  assumes "Statements body = Inr stmts"
    and "module_fields stmts (Bindings [] 0 []) [] = Inr (fields, elements)"
    and "ph \<in> set (slot_phrases fields)"
  shows "size ph < Suc (size body)"
proof -
  from module_fields_sizes [OF assms(2)] assms(3)
  obtain st where "st \<in> set stmts" and "size ph < size st" by auto
  with Statements_size [OF assms(1)] show ?thesis by fastforce
qed

lemma module_element_size:
  assumes "Statements body = Inr stmts"
    and "module_fields stmts (Bindings [] 0 []) [] = Inr (fields, elements)"
    and "ph \<in> set elements"
  shows "size ph < Suc (size body)"
proof -
  from module_fields_sizes [OF assms(2)] assms(3) have "ph \<in> set stmts" by auto
  with Statements_size [OF assms(1)] show ?thesis by fastforce
qed

lemma record_definiens_size:
  assumes "(p, c) \<in> set args" and "analyze_def p = Inr (Some (Definition t a d))"
  shows "size d < Suc (size_list (size_prod size (\<lambda>x. 0)) args)"
  using size_arg_less [OF assms(1)] analyze_def_size [OF assms(2)] by simp

lemma let_binding_size:
  assumes "let_bindings args [] slot = Inr bs" and "(a, s, ph) \<in> set bs"
  shows "size ph < Suc (size_list (size_prod size (\<lambda>x. 0)) args)"
proof -
  from let_bindings_sizes [OF assms] obtain p c where
    "(p, c) \<in> set args" and "size ph < size p" by auto
  with size_arg_less [of p c args] show ?thesis by simp
qed

lemma opt_list_size: "x \<in> set (opt_list y) \<Longrightarrow> size x < Suc (size_option size y)"
  by (cases y) auto

termination analyze
  by (relation "measure (\<lambda>(rtl, p, env). size p)")
    (auto simp: single_arg_size
      dest: size_arg_less paren_args_size module_slot_size module_element_size
        record_definiens_size let_binding_size opt_list_size dot_rhs_of_size for_definition_size)

text \<open>\<open>analyze_op\<close>: analyse a phrase and require an operation.\<close>

definition analyze_op :: "bool \<Rightarrow> phrase \<Rightarrow> environ \<Rightarrow> exception + (meaning \<times> environ)" where
  "analyze_op rtl ph env = to_operation (analyze rtl ph env)"

section \<open>What an analysis leaves of an environment\<close>

text \<open>
  Relations between an environment before and after a lookup or an analysis.
  \<open>scope_rel\<close>: the scope is the same, but an \<open>Arg_Environ\<close> that is not recursive
  may have captured more nonlocals. \<open>chain_rel\<close>: along the whole parent chain the scopes are related and the
  counters are the same. \<open>env_rel\<close>: the same, but \<open>frame_maxslots\<close> of the environment
  itself may have grown.
\<close>

fun scope_rel :: "scope \<Rightarrow> scope \<Rightarrow> bool" where
  "scope_rel (Arg_Environ names nd ne r) (Arg_Environ names' nd' ne' r') =
     (names' = names \<and> r' = r \<and> take (length nd) nd' = nd \<and> take (length ne) ne' = ne \<and>
      (r \<longrightarrow> nd' = nd \<and> ne' = ne))"
| "scope_rel (Arg_Environ names nd ne r) sc' = False"
| "scope_rel sc sc' = (sc' = sc)"

fun chain_rel :: "environ \<Rightarrow> environ \<Rightarrow> bool" where
  "chain_rel (Environ sc ns ms par) env' =
     (scope_rel sc (scope env') \<and> frame_nslots env' = ns \<and> frame_maxslots env' = ms \<and>
      (case par of
         None \<Rightarrow> parent env' = None
       | Some p \<Rightarrow> (case parent env' of None \<Rightarrow> False | Some p' \<Rightarrow> chain_rel p p')))"

definition env_rel :: "environ \<Rightarrow> environ \<Rightarrow> bool" where
  "env_rel env env' =
     (scope_rel (scope env) (scope env') \<and> frame_nslots env' = frame_nslots env \<and>
      frame_maxslots env \<le> frame_maxslots env' \<and>
      (case parent env of
         None \<Rightarrow> parent env' = None
       | Some p \<Rightarrow> (case parent env' of None \<Rightarrow> False | Some p' \<Rightarrow> chain_rel p p')))"

lemma chain_rel_Environ:
  "chain_rel (Environ sc ns ms par) (Environ sc' ns' ms' par') =
     (scope_rel sc sc' \<and> ns' = ns \<and> ms' = ms \<and> rel_option chain_rel par par')"
  by (cases par; cases par') auto

lemma env_rel_Environ:
  "env_rel (Environ sc ns ms par) (Environ sc' ns' ms' par') =
     (scope_rel sc sc' \<and> ns' = ns \<and> ms \<le> ms' \<and> rel_option chain_rel par par')"
  by (cases par; cases par') (auto simp: env_rel_def)

declare chain_rel.simps [simp del]

lemma scope_rel_refl [simp]: "scope_rel sc sc"
  by (cases sc) auto

lemma take_take_prefix:
  assumes "take (length a) b = a" and "take (length b) c = b"
  shows "take (length a) c = a"
proof -
  have "length (take (length a) b) = length a" using assms(1) by simp
  then have "length a \<le> length b" by simp
  then have "take (length a) c = take (length a) (take (length b) c)" by (simp add: min_def)
  with assms show ?thesis by simp
qed

lemma scope_rel_trans: "scope_rel a b \<Longrightarrow> scope_rel b c \<Longrightarrow> scope_rel a c"
  by (cases a; cases b; cases c) (auto intro: take_take_prefix)

lemma chain_rel_refl [simp]: "chain_rel env env"
proof (induction env)
  case (Environ sc ns ms par)
  then show ?case by (cases par) (auto simp: chain_rel_Environ)
qed

lemma chain_rel_trans: "chain_rel a b \<Longrightarrow> chain_rel b c \<Longrightarrow> chain_rel a c"
proof (induction a arbitrary: b c)
  case (Environ sc ns ms par)
  obtain sc1 ns1 ms1 par1 where b: "b = Environ sc1 ns1 ms1 par1" by (cases b)
  obtain sc2 ns2 ms2 par2 where c: "c = Environ sc2 ns2 ms2 par2" by (cases c)
  from Environ.prems b c have "scope_rel sc sc2" and "ns2 = ns" and "ms2 = ms"
    by (auto simp: chain_rel_Environ intro: scope_rel_trans)
  moreover have "rel_option chain_rel par par2"
  proof (cases par)
    case None
    with Environ.prems b c show ?thesis by (auto simp: chain_rel_Environ)
  next
    case (Some p)
    with Environ.prems b c obtain p1 p2 where "par1 = Some p1" "par2 = Some p2"
      "chain_rel p p1" "chain_rel p1 p2"
      by (cases par1; cases par2) (auto simp: chain_rel_Environ)
    with Environ.IH [of p p1 p2] Some show ?thesis by simp
  qed
  ultimately show ?case using c by (simp add: chain_rel_Environ)
qed

lemma chain_rel_env_rel: "chain_rel a b \<Longrightarrow> env_rel a b"
  by (cases a; cases b) (auto simp: env_rel_Environ chain_rel_Environ)

lemma env_rel_refl [simp]: "env_rel env env"
  by (simp add: chain_rel_env_rel)

lemma rel_option_chain_rel_trans:
  "rel_option chain_rel x y \<Longrightarrow> rel_option chain_rel y z \<Longrightarrow> rel_option chain_rel x z"
  by (cases x; cases y; cases z) (auto intro: chain_rel_trans)

lemma env_rel_trans: "env_rel a b \<Longrightarrow> env_rel b c \<Longrightarrow> env_rel a c"
  by (cases a; cases b; cases c)
    (auto simp: env_rel_Environ intro: scope_rel_trans rel_option_chain_rel_trans)

lemma env_chain_rel_trans: "env_rel a b \<Longrightarrow> chain_rel b c \<Longrightarrow> env_rel a c"
  by (blast intro: env_rel_trans chain_rel_env_rel)

lemma single_lookup_chain_rel: "single_lookup env t a = Inr (om, env') \<Longrightarrow> chain_rel env env'"
  and lookup_chain_rel: "lookup env t a = Inr (m, env') \<Longrightarrow> chain_rel env env'"
proof (induction env t a and env t a arbitrary: om env' and m env'
    rule: single_lookup_lookup.induct)
  case (1 names ns ms par t a)
  then show ?case by (auto split: option.splits)
next
  case (2 b ns ms par t a)
  then show ?case by (auto split: option.splits if_splits)
next
  case (3 names ns ms par t a)
  then show ?case by (auto split: option.splits)
next
  case (4 name slot ns ms par t a)
  then show ?case by (auto split: if_splits)
next
  case (5 names nd ne recursive ns ms par t a)
  then show ?case
    by (auto simp: chain_rel_Environ option.rel_refl_strong split: option.splits if_splits sum.splits)
next
  case (6 sc ns ms par t a)
  show ?case
  proof (cases "single_lookup (Environ sc ns ms par) t a")
    case (Inl e)
    with 6(3) show ?thesis by simp
  next
    case (Inr r)
    obtain om e1 where r: "r = (om, e1)" by (cases r)
    show ?thesis
    proof (cases om)
      case (Some m')
      with 6(3) Inr r have "env' = e1" by simp
      with 6(1) [of om e1] Inr r show ?thesis by simp
    next
      case None
      from 6(1) [of om e1] Inr r have c1: "chain_rel (Environ sc ns ms par) e1" by simp
      from None 6(3) Inr r obtain p p' where par: "par = Some p" and
        lk: "lookup p t a = Inr (m, p')" and env': "env' = Environ sc ns ms (Some p')"
        by (auto split: option.splits sum.splits)
      from Inr r None have "(None, e1) = r" by simp
      from 6(2) [OF Inr this refl par lk] have "chain_rel p p'" .
      with par env' show ?thesis by (simp add: chain_rel_Environ)
    qed
  qed
qed

lemma to_operation_Inr: "to_operation r = Inr (m, e) \<Longrightarrow> r = Inr (m, e)"
  by (cases r rule: to_operation.cases) auto

lemma foldM_env_rel:
  assumes "foldM_env f xs acc env = Inr (acc', env')"
    and "\<And>x a e a' e'. x \<in> set xs \<Longrightarrow> f x a e = Inr (a', e') \<Longrightarrow> R e e'"
    and "\<And>e. R e e" and "\<And>a b c. R a b \<Longrightarrow> R b c \<Longrightarrow> R a c"
  shows "R env env'"
  using assms(1,2)
proof (induction xs arbitrary: acc env)
  case Nil
  then show ?case by (simp add: assms(3))
next
  case (Cons x xs)
  from Cons.prems(1) obtain a1 e1 where
    step: "f x acc env = Inr (a1, e1)" and rest: "foldM_env f xs a1 e1 = Inr (acc', env')"
    by (auto split: sum.splits)
  have "R env e1" using Cons.prems(2) [OF _ step] by simp
  moreover have "R e1 env'"
  proof (rule Cons.IH [OF rest])
    fix y a e a' e'
    assume "y \<in> set xs" and "f y a e = Inr (a', e')"
    then show "R e e'" using Cons.prems(2) [of y a e a' e'] by simp
  qed
  ultimately show ?case by (rule assms(4))
qed

lemma mapM_env_rel:
  assumes "mapM_env f xs env = Inr (ys, env')"
    and "\<And>x e y e'. x \<in> set xs \<Longrightarrow> f x e = Inr (y, e') \<Longrightarrow> R e e'"
    and "\<And>e. R e e" and "\<And>a b c. R a b \<Longrightarrow> R b c \<Longrightarrow> R a c"
  shows "R env env'"
  using assms(1) unfolding mapM_env_def
  by (rule foldM_env_rel) (auto split: sum.splits intro: assms(2,3) elim: assms(4))

lemma ordered_rel:
  assumes "ordered rtl f xs env = Inr (ys, env')"
    and "\<And>x e y e'. x \<in> set xs \<Longrightarrow> f x e = Inr (y, e') \<Longrightarrow> R e e'"
    and "\<And>e. R e e" and "\<And>a b c. R a b \<Longrightarrow> R b c \<Longrightarrow> R a c"
  shows "R env env'"
proof (cases rtl)
  case True
  with assms(1) obtain zs where "mapM_env f (rev xs) env = Inr (zs, env')"
    by (auto simp: ordered_def split: sum.splits)
  then show ?thesis
    by (rule mapM_env_rel) (auto intro: assms(2,3) elim: assms(4))
next
  case False
  with assms(1) have "mapM_env f xs env = Inr (ys, env')"
    by (simp add: ordered_def)
  then show ?thesis
    by (rule mapM_env_rel) (auto intro: assms(2,3) elim: assms(4))
qed

lemma child_env_rel:
  assumes "env_rel (Environ sc ns ms (Some env)) env2"
  shows "chain_rel env (parent_of env env2)"
    and "ms \<le> frame_maxslots env2"
  using assms by (cases env2; cases "parent env2"; auto simp: env_rel_Environ)+

lemma set_frame_maxslots_env_rel:
  assumes "chain_rel env p" and "frame_maxslots env \<le> n"
  shows "env_rel env (set_frame_maxslots p n)"
  using assms by (cases env; cases p) (auto simp: env_rel_Environ chain_rel_Environ)

lemma analyze_env_rel: "analyze rtl p env = Inr (m, env') \<Longrightarrow> env_rel env env'"
proof (induction rtl p env arbitrary: m env' rule: analyze.induct)
  case (1 rtl t a env)
  then show ?case by (auto dest: lookup_chain_rel chain_rel_env_rel)
next
  case (2 rtl t str env)
  then show ?case by (auto split: if_splits)
next
  case (3 rtl t str env)
  then show ?case by (auto split: if_splits)
next
  case (4 rtl t env)
  then show ?case by simp
next
  case (5 rtl body t env)
  then show ?case by simp
next
  case (6 rtl op arg env)
  from 6(2) obtain a where "to_operation (analyze rtl arg env) = Inr (a, env')"
    by (auto split: sum.splits)
  from 6(1) [OF to_operation_Inr [OF this]] show ?case .
next
  case (7 rtl left op right env)
  show ?case
  proof (cases "kind op = k_dot")
    case True
    show ?thesis
    proof (cases "dot_rhs_of right")
      case (Dot_Atom a)
      with True 7(5) obtain l where "to_operation (analyze rtl left env) = Inr (l, env')"
        by (auto split: sum.splits)
      from 7(1) [OF True Dot_Atom to_operation_Inr [OF this]] show ?thesis .
    next
      case (Dot_Index ix)
      with True 7(5) obtain index env1 l where
        ix: "to_operation (analyze rtl ix env) = Inr (index, env1)" and
        l: "to_operation (analyze rtl left env1) = Inr (l, env')"
        by (auto split: sum.splits)
      have "env_rel env env1"
        by (rule 7(2) [OF True Dot_Index to_operation_Inr [OF ix]])
      moreover have "env_rel env1 env'"
        by (rule 7(3) [OF True Dot_Index ix refl to_operation_Inr [OF l]])
      ultimately show ?thesis by (rule env_rel_trans)
    next
      case Dot_Bad_List
      with True 7(5) show ?thesis by simp
    next
      case Dot_Other
      with True 7(5) show ?thesis by simp
    qed
  next
    case False
    with 7(5) obtain ms where
      "ordered rtl (\<lambda>p e. to_operation (analyze rtl p e)) [left, right] env = Inr (ms, env')"
      by (auto split: sum.splits)
    then show ?thesis
      by (rule ordered_rel) (auto dest!: to_operation_Inr intro: 7(4) [OF False] elim: env_rel_trans)
  qed
next
  case (8 rtl left eq right env)
  then show ?case by simp
next
  case (9 rtl args env)
  from 9(2) obtain p c where args: "args = [(p, c)]" and
    "to_operation (analyze rtl p env) = Inr (m, env')"
    by (auto split: list.splits prod.splits)
  from 9(1) [OF args refl refl to_operation_Inr [OF this(2)]] show ?case .
next
  case (10 rtl args env)
  show ?case
  proof (cases "length args = 1 \<and> kind (snd (args ! 0)) = k_missing")
    case True
    with 10(3) have "to_operation (analyze rtl (fst (args ! 0)) env) = Inr (m, env')" by simp
    from 10(1) [OF True to_operation_Inr [OF this]] show ?thesis .
  next
    case False
    with 10(3) obtain seq where
      "mapM_env (\<lambda>(p, c) e. to_operation (analyze rtl p e)) args env = Inr (seq, env')"
      by (auto split: sum.splits)
    then show ?thesis
      by (rule mapM_env_rel) (auto dest!: to_operation_Inr intro: 10(2) [OF False] elim: env_rel_trans)
  qed
next
  case (11 rtl lp args rp env)
  show ?case
  proof (cases "length args = 1 \<and> kind (snd (args ! 0)) = k_missing")
    case True
    with 11(3) have "to_operation (analyze rtl (fst (args ! 0)) env) = Inr (m, env')" by simp
    from 11(1) [OF True to_operation_Inr [OF this]] show ?thesis .
  next
    case False
    with 11(3) obtain seq where
      "mapM_env (\<lambda>(p, c) e. to_operation (analyze rtl p e)) args env = Inr (seq, env')"
      by (auto split: sum.splits)
    then show ?thesis
      by (rule mapM_env_rel) (auto dest!: to_operation_Inr intro: 11(2) [OF False] elim: env_rel_trans)
  qed
next
  case (12 rtl lb args rb env)
  from 12(2) obtain list where
    "mapM_env (\<lambda>(p, c) e. to_operation (analyze rtl p e)) args env = Inr (list, env')"
    by (auto split: sum.splits)
  then show ?case
    by (rule mapM_env_rel) (auto dest!: to_operation_Inr intro: 12(1) elim: env_rel_trans)
next
  case (13 rtl fn args tok env)
  from 13(4) obtain f env1 argv where
    f: "analyze rtl fn env = Inr (f, env1)" and
    argv: "(case paren_args args of
              Some patom \<Rightarrow> mapM_env (\<lambda>(p, c) e. to_operation (analyze rtl p e)) patom env1
            | None \<Rightarrow> mapM_env (\<lambda>p e. to_operation (analyze rtl p e)) [args] env1) = Inr (argv, env')"
    by (auto split: sum.splits)
  have "env_rel env env1" by (rule 13(1) [OF f])
  moreover have "env_rel env1 env'"
  proof (cases "paren_args args")
    case None
    with argv have "mapM_env (\<lambda>p e. to_operation (analyze rtl p e)) [args] env1 = Inr (argv, env')"
      by simp
    then show ?thesis
      by (rule mapM_env_rel)
        (auto dest!: to_operation_Inr intro: 13(2) [OF f refl None] elim: env_rel_trans)
  next
    case (Some patom)
    with argv have
      "mapM_env (\<lambda>(p, c) e. to_operation (analyze rtl p e)) patom env1 = Inr (argv, env')"
      by simp
    then show ?thesis
      by (rule mapM_env_rel)
        (auto dest!: to_operation_Inr intro: 13(3) [OF f refl Some] elim: env_rel_trans)
  qed
  ultimately show ?case by (rule env_rel_trans)
next
  case (14 rtl left tok right recursive env)
  from 14(2) obtain params expr env2 where
    params: "lambda_params left = Inr params" and
    body: "to_operation (analyze rtl right (make_Arg_Environ env params recursive)) = Inr (expr, env2)" and
    env': "env' = parent_of env env2"
    by (auto split: sum.splits)
  from 14(1) [OF params to_operation_Inr [OF body]]
  have "env_rel (make_Arg_Environ env params recursive) env2" .
  then have "chain_rel env (parent_of env env2)"
    unfolding make_Arg_Environ_def by (rule child_env_rel)
  with env' show ?case by (simp add: chain_rel_env_rel)
next
  case (15 rtl body env)
  from 15(3) obtain stmts fields elements slots env2 xelements env2' where
    st: "Statements body = Inr stmts" and
    mf: "module_fields stmts (Bindings [] 0 []) [] = Inr (fields, elements)" and
    sl: "foldM_env
           (\<lambda>ph slots e.
              case to_operation (analyze rtl ph e) of
                Inl x \<Rightarrow> Inl x
              | Inr (expr, e') \<Rightarrow>
                  if is_Lambda_Phrase ph
                  then (case lambda_value expr of
                          Inl x \<Rightarrow> Inl x
                        | Inr v \<Rightarrow> Inr (slots @ [v], e'))
                  else Inr (slots @ [Thunk expr], e'))
           (slot_phrases fields) [] (make_Bindings_Environ env fields) = Inr (slots, env2)" and
    el: "mapM_env (\<lambda>ph e. to_operation (analyze rtl ph e)) elements env2 = Inr (xelements, env2')" and
    env': "env' = parent_of env env2'"
    by (auto split: sum.splits)
  have "env_rel (make_Bindings_Environ env fields) env2"
    using sl
    by (rule foldM_env_rel)
      (auto dest!: to_operation_Inr intro: 15(1) [OF st mf refl] elim: env_rel_trans
        split: sum.splits if_splits)
  moreover have "env_rel env2 env2'"
    using el
    by (rule mapM_env_rel)
      (auto dest!: to_operation_Inr intro: 15(2) [OF st mf refl sl refl] elim: env_rel_trans)
  ultimately have "env_rel (make_Bindings_Environ env fields) env2'" by (rule env_rel_trans)
  then have "chain_rel env (parent_of env env2')"
    unfolding make_Bindings_Environ_def by (rule child_env_rel)
  with env' show ?case by (simp add: chain_rel_env_rel)
next
  case (16 rtl lb args rb env)
  from 16(2) obtain fields where
    "foldM_env
       (\<lambda>(p, c) fields e.
          case analyze_def p of
            Inl x \<Rightarrow> Inl x
          | Inr None \<Rightarrow> Inl (Exception (At_Phrase p) ''not a definition'')
          | Inr (Some (Definition t a definiens)) \<Rightarrow>
              (case map_of fields a of
                 Some m \<Rightarrow> Inl (Exception (At_Phrase (Identifier t a)) (a @ '': multiply defined''))
               | None \<Rightarrow>
                   (case to_operation (analyze rtl definiens e) of
                      Inl x \<Rightarrow> Inl x
                    | Inr (m, e') \<Rightarrow> Inr (fields @ [(a, m)], e'))))
       args [] env = Inr (fields, env')"
    by (auto split: sum.splits)
  then show ?case
    by (rule foldM_env_rel)
      (auto dest!: to_operation_Inr intro: 16(1) elim: env_rel_trans
        split: sum.splits option.splits defn.splits)
next
  case (17 rtl it condition then_expr et else_expr env)
  from 17(2) obtain ms where
    "ordered rtl (\<lambda>p e. to_operation (analyze rtl p e))
       ([condition, then_expr] @ opt_list else_expr) env = Inr (ms, env')"
    by (auto split: sum.splits)
  then show ?case
    by (rule ordered_rel) (auto dest!: to_operation_Inr intro: 17(1) elim: env_rel_trans)
next
  case (18 rtl lt lp args rp body env)
  from 18(3) obtain bindings "values" env2 b env2' where
    lb: "let_bindings args [] (frame_nslots env) = Inr bindings" and
    vs: "foldM_env
           (\<lambda>(a, slot, ph) values e.
              case to_operation (analyze rtl ph e) of
                Inl x \<Rightarrow> Inl x
              | Inr (expr, e') \<Rightarrow> Inr (values[slot - frame_nslots env := Thunk expr], e'))
           (sort_key fst bindings) (replicate (length bindings) Null_Value)
           (make_Let_Environ env bindings) = Inr (values, env2)" and
    bd: "to_operation (analyze rtl body env2) = Inr (b, env2')" and
    env': "env' = set_frame_maxslots (parent_of env env2') (frame_maxslots env2')"
    by (auto split: sum.splits if_splits)
  have IH: "env_rel e e'" if "(a, s, ph) \<in> set bindings" and "analyze rtl ph e = Inr (y, e')"
    for a s ph e y e'
    using 18(1) [OF lb _ refl refl that(2), of a s] that(1) by simp
  have "env_rel (make_Let_Environ env bindings) env2"
    using vs
    by (rule foldM_env_rel)
      (auto dest!: to_operation_Inr intro: IH elim: env_rel_trans split: sum.splits)
  moreover have "env_rel env2 env2'"
    by (rule 18(2) [OF lb vs refl to_operation_Inr [OF bd]])
  ultimately have "env_rel (make_Let_Environ env bindings) env2'" by (rule env_rel_trans)
  from child_env_rel [OF this [unfolded make_Let_Environ_def]] env' show ?case
    by (auto intro: set_frame_maxslots_env_rel)
next
  case (19 rtl ft lp args rp body env)
  from 19(3) obtain name right list env1 b body_env where
    fd: "for_definition lp args rp = Inr (name, right)" and
    ls: "to_operation (analyze rtl right env) = Inr (list, env1)" and
    bd: "to_operation (analyze rtl body (make_For_Environ env1 name (frame_nslots env1))) = Inr (b, body_env)" and
    env': "env' = set_frame_maxslots (parent_of env1 body_env) (frame_maxslots body_env)"
    by (auto split: sum.splits)
  have "env_rel env env1"
    by (rule 19(1) [OF fd refl to_operation_Inr [OF ls]])
  moreover have "env_rel (make_For_Environ env1 name (frame_nslots env1)) body_env"
    by (rule 19(2) [OF fd refl ls refl to_operation_Inr [OF bd]])
  from child_env_rel [OF this [unfolded make_For_Environ_def]] env'
  have "env_rel env1 env'"
    by (auto intro: set_frame_maxslots_env_rel)
  ultimately show ?case by (rule env_rel_trans)
next
  case (20 rtl first_expr op last_expr bt step env)
  from 20(2) obtain ms where
    "ordered rtl (\<lambda>p e. to_operation (analyze rtl p e))
       ([first_expr, last_expr] @ opt_list step) env = Inr (ms, env')"
    by (auto split: sum.splits)
  then show ?case
    by (rule ordered_rel) (auto dest!: to_operation_Inr intro: 20(1) elim: env_rel_trans)
qed

section \<open>Example inputs\<close>

text \<open>
  A token of kind \<open>k\<close> over the bytes \<open>i..<j\<close> with no white space before it, and the
  environment of the builtins, with no slot in use.
\<close>

definition tk :: "token_kind \<Rightarrow> nat \<Rightarrow> nat \<Rightarrow> token" where
  "tk k i j = Token k i i j"

definition builtin_env :: environ where
  "builtin_env = Environ (Builtin_Environ builtin_namespace) 0 0 None"

section \<open>Definitions and their sugar\<close>

text \<open>
  C7. \<open>Definition_Phrase::analyze_def\<close> yields the definition of \<open>id\<close> by \<open>right\<close> when
  the left side is the identifier \<open>id\<close>. When the left side is the call \<open>f args\<close> and
  \<open>f\<close> is an identifier, it yields the definition of \<open>f\<close> by the lambda phrase
  \<open>args -> right\<close> (built with the token of \<open>=\<close>, not recursive); when \<open>f\<close> is not an
  identifier it raises "not an identifier" at \<open>f\<close>. For every other left side it
  raises "invalid definiendum" at the left side.
\<close>

theorem analyze_def_Definition_Phrase:
  "analyze_def (Definition_Phrase (Identifier t a) eq right) = Inr (Some (Definition t a right)) \<and>
   analyze_def (Definition_Phrase (Call_Phrase (Identifier t a) args tok) eq right) =
     Inr (Some (Definition t a (Lambda_Phrase args eq right False))) \<and>
   ((\<forall>t' a'. f \<noteq> Identifier t' a') \<longrightarrow>
      analyze_def (Definition_Phrase (Call_Phrase f args tok) eq right) =
        Inl (Exception (At_Phrase f) ''not an identifier'')) \<and>
   ((\<forall>t' a'. left \<noteq> Identifier t' a') \<and> (\<forall>f' args' tok'. left \<noteq> Call_Phrase f' args' tok') \<longrightarrow>
      analyze_def (Definition_Phrase left eq right) =
        Inl (Exception (At_Phrase left) ''invalid definiendum''))"
proof -
  have "analyze_def (Definition_Phrase (Call_Phrase f args tok) eq right) =
        Inl (Exception (At_Phrase f) ''not an identifier'')" if "\<forall>t' a'. f \<noteq> Identifier t' a'"
    using that by (cases f) auto
  moreover have "analyze_def (Definition_Phrase left eq right) =
        Inl (Exception (At_Phrase left) ''invalid definiendum'')"
    if "\<forall>t' a'. left \<noteq> Identifier t' a'" and "\<forall>f' args' tok'. left \<noteq> Call_Phrase f' args' tok'"
    using that by (cases left) auto
  ultimately show ?thesis by simp
qed

text \<open>The four cases at \<open>f = 1\<close>, \<open>f x = x\<close>, \<open>2 x = x\<close> and \<open>2 = 1\<close>.\<close>

theorem analyze_def_Definition_Phrase_witness:
  "analyze_def (Definition_Phrase (Identifier (tk k_ident 0 1) ''f'') (tk k_equate 1 2)
      (Numeral (tk k_num 2 3) ''1'')) =
     Inr (Some (Definition (tk k_ident 0 1) ''f'' (Numeral (tk k_num 2 3) ''1''))) \<and>
   analyze_def (Definition_Phrase
      (Call_Phrase (Identifier (tk k_ident 0 1) ''f'') (Identifier (tk k_ident 2 3) ''x'') Token_default)
      (tk k_equate 3 4) (Identifier (tk k_ident 4 5) ''x'')) =
     Inr (Some (Definition (tk k_ident 0 1) ''f''
       (Lambda_Phrase (Identifier (tk k_ident 2 3) ''x'') (tk k_equate 3 4)
          (Identifier (tk k_ident 4 5) ''x'') False))) \<and>
   analyze_def (Definition_Phrase
      (Call_Phrase (Numeral (tk k_num 0 1) ''2'') (Identifier (tk k_ident 2 3) ''x'') Token_default)
      (tk k_equate 3 4) (Identifier (tk k_ident 4 5) ''x'')) =
     Inl (Exception (At_Phrase (Numeral (tk k_num 0 1) ''2'')) ''not an identifier'') \<and>
   analyze_def (Definition_Phrase (Numeral (tk k_num 0 1) ''2'') (tk k_equate 1 2)
      (Numeral (tk k_num 2 3) ''1'')) =
     Inl (Exception (At_Phrase (Numeral (tk k_num 0 1) ''2'')) ''invalid definiendum'')"
  using analyze_def_Definition_Phrase [of "tk k_ident 0 1" "''f''" "tk k_equate 1 2"
      "Numeral (tk k_num 2 3) ''1''" "Identifier (tk k_ident 2 3) ''x''" Token_default
      "Numeral (tk k_num 0 1) ''2''" "Numeral (tk k_num 0 1) ''2''"]
    analyze_def_Definition_Phrase [of "tk k_ident 0 1" "''f''" "tk k_equate 3 4"
      "Identifier (tk k_ident 4 5) ''x''" "Identifier (tk k_ident 2 3) ''x''" Token_default
      "Numeral (tk k_num 0 1) ''2''" "Numeral (tk k_num 0 1) ''2''"]
  by simp

section \<open>The parameters of a lambda\<close>

text \<open>
  The names of the arguments that are identifiers, in order, and the lambda \<open>(x,x)->x\<close>.
\<close>

fun arg_atoms :: "(phrase \<times> token) list \<Rightarrow> atom list" where
  "arg_atoms [] = []"
| "arg_atoms ((p, c) # rest) = opt_list (identifier_atom p) @ arg_atoms rest"

definition lam_xx :: phrase where
  "lam_xx = Lambda_Phrase
     (Paren_Phrase (tk k_lparen 0 1)
        [(Identifier (tk k_ident 1 2) ''x'', tk k_comma 2 3),
         (Identifier (tk k_ident 3 4) ''x'', Token_default)]
        (tk k_rparen 4 5))
     (tk k_right_arrow 5 7) (Identifier (tk k_ident 7 8) ''x'') False"

lemma identifier_atom_None: "(identifier_atom p = None) = (\<forall>t a. p \<noteq> Identifier t a)"
  by (cases p) auto

lemma params_loop_Inl:
  "params_loop args params slot = Inl e \<Longrightarrow>
     \<exists>(p, c) \<in> set args. identifier_atom p = None \<and> e = Exception (At_Phrase p) ''not a parameter''"
proof (induction args arbitrary: params slot)
  case Nil
  then show ?case by simp
next
  case (Cons x rest)
  obtain p c where x: "x = (p, c)" by (cases x)
  show ?case
  proof (cases "identifier_atom p")
    case None
    with Cons.prems x show ?thesis by (cases p) auto
  next
    case (Some a)
    then obtain t where "p = Identifier t a" by (cases p) auto
    with Cons.prems x have "params_loop rest (AList.update a slot params) (Suc slot) = Inl e"
      by simp
    from Cons.IH [OF this] show ?thesis by auto
  qed
qed

lemma params_loop_Inr:
  assumes "\<forall>(p, c) \<in> set args. identifier_atom p \<noteq> None"
  shows "\<exists>ps. params_loop args params slot = Inr ps \<and>
           map_of ps = map_of params ++ map_of (rev (zip (arg_atoms args) [slot..<slot + length args])) \<and>
           (distinct (map fst params) \<longrightarrow> distinct (map fst ps)) \<and>
           set (map fst ps) = set (map fst params) \<union> set (arg_atoms args)"
  using assms
proof (induction args arbitrary: params slot)
  case Nil
  then show ?case by simp
next
  case (Cons x rest)
  obtain p c where x: "x = (p, c)" by (cases x)
  with Cons.prems obtain t a where p: "p = Identifier t a" by (cases p) auto
  from Cons.prems have "\<forall>(p, c) \<in> set rest. identifier_atom p \<noteq> None" by simp
  from Cons.IH [OF this, of "AList.update a slot params" "Suc slot"] obtain ps where
    ps: "params_loop rest (AList.update a slot params) (Suc slot) = Inr ps" and
    m: "map_of ps = map_of (AList.update a slot params) ++
          map_of (rev (zip (arg_atoms rest) [Suc slot..<Suc slot + length rest]))" and
    d: "distinct (map fst (AList.update a slot params)) \<longrightarrow> distinct (map fst ps)" and
    s: "set (map fst ps) = set (map fst (AList.update a slot params)) \<union> set (arg_atoms rest)"
    by blast
  have up: "[slot..<slot + length (x # rest)] = slot # [Suc slot..<Suc slot + length rest]"
    by (simp add: upt_rec)
  have "map_of ps = map_of params ++
          map_of (rev (zip (arg_atoms (x # rest)) [slot..<slot + length (x # rest)]))"
    unfolding up using m x p by (simp add: update_conv' map_add_upd_left)
  moreover have "distinct (map fst params) \<longrightarrow> distinct (map fst ps)"
    using d by (simp add: distinct_update)
  moreover have "set (map fst ps) = set (map fst params) \<union> set (arg_atoms (x # rest))"
    using s x p by (auto simp: dom_update)
  ultimately show ?case using ps x p by simp
qed

lemma params_loop_Inr_ids:
  "params_loop args params slot = Inr ps \<Longrightarrow> \<forall>(p, c) \<in> set args. identifier_atom p \<noteq> None"
proof (induction args arbitrary: params slot)
  case Nil
  then show ?case by simp
next
  case (Cons x rest)
  obtain p c where x: "x = (p, c)" by (cases x)
  show ?case
  proof (cases "identifier_atom p")
    case None
    with Cons.prems x show ?thesis by (cases p) auto
  next
    case (Some a)
    then obtain t where p: "p = Identifier t a" by (cases p) auto
    with Cons.prems x have "params_loop rest (AList.update a slot params) (Suc slot) = Inr ps"
      by simp
    from Cons.IH [OF this] x p show ?thesis by simp
  qed
qed

lemma analyze_lam_xx:
  "analyze rtl lam_xx env =
     Inr (Lambda_Expr lam_xx (Arg_Ref (Identifier (tk k_ident 7 8) ''x'') 1) [] 1 1, env)"
  by (simp add: lam_xx_def make_Arg_Environ_def)

text \<open>
  C10. Parameter extraction raises nothing but "not a parameter", and raises it exactly
  when the left side is neither an identifier nor a \<open>Paren_Phrase\<close>, or is a
  \<open>Paren_Phrase\<close> with an element that is not an identifier. Duplicate names are
  accepted: when all elements are identifiers, the dictionary binds each name to the
  slot of its last occurrence (the first match in the reversed list of name and
  position), and \<open>nargs\<close>, its size, is the number of distinct names. So \<open>(x,x)->x\<close> is
  analysed, in any environment, to a \<open>Lambda_Expr\<close> with \<open>nargs = 1\<close> and body
  \<open>Arg_Ref(1)\<close>, a slot outside \<open>[0, nargs)\<close>.
\<close>

theorem lambda_parameters:
  "(lambda_params left = Inl e \<longrightarrow> (\<exists>p. e = Exception (At_Phrase p) ''not a parameter'')) \<and>
   ((\<exists>e'. lambda_params left = Inl e') =
      ((\<forall>t a. left \<noteq> Identifier t a) \<and>
       (\<forall>lp args rp. left = Paren_Phrase lp args rp \<longrightarrow>
          (\<exists>(p, c) \<in> set args. \<forall>t a. p \<noteq> Identifier t a)))) \<and>
   ((\<forall>(p, c) \<in> set args. \<exists>t a. p = Identifier t a) \<longrightarrow>
      (\<exists>params. lambda_params (Paren_Phrase lp args rp) = Inr params \<and>
         map_of params = map_of (rev (zip (arg_atoms args) [0..<length args])) \<and>
         length params = card (set (arg_atoms args)))) \<and>
   analyze rtl lam_xx env =
     Inr (Lambda_Expr lam_xx (Arg_Ref (Identifier (tk k_ident 7 8) ''x'') 1) [] 1 1, env)"
proof (intro conjI)
  show "lambda_params left = Inl e \<longrightarrow> (\<exists>p. e = Exception (At_Phrase p) ''not a parameter'')"
    by (cases left) (auto dest: params_loop_Inl)
next
  have ok: "\<exists>ps. params_loop args' [] 0 = Inr ps"
    if "\<forall>(p, c) \<in> set args'. identifier_atom p \<noteq> None" for args'
    using params_loop_Inr [OF that, of "[]" 0] by blast
  have bad: "\<exists>(p, c) \<in> set args'. \<forall>t a. p \<noteq> Identifier t a"
    if "params_loop args' [] 0 = Inl e'" for args' e'
    using params_loop_Inl [OF that] by (auto simp: identifier_atom_None)
  show "(\<exists>e'. lambda_params left = Inl e') =
      ((\<forall>t a. left \<noteq> Identifier t a) \<and>
       (\<forall>lp args rp. left = Paren_Phrase lp args rp \<longrightarrow>
          (\<exists>(p, c) \<in> set args. \<forall>t a. p \<noteq> Identifier t a)))"
  proof (cases "\<exists>lp args rp. left = Paren_Phrase lp args rp")
    case True
    then obtain lp' args' rp' where left: "left = Paren_Phrase lp' args' rp'" by blast
    show ?thesis
    proof (cases "\<forall>(p, c) \<in> set args'. identifier_atom p \<noteq> None")
      case True
      with ok [OF True] left show ?thesis
        by (auto simp: identifier_atom_None)
    next
      case False
      then have ex: "\<exists>(p, c) \<in> set args'. \<forall>t a. p \<noteq> Identifier t a"
        by (auto simp: identifier_atom_None)
      have "\<exists>e'. params_loop args' [] 0 = Inl e'"
      proof (cases "params_loop args' [] 0")
        case (Inl e')
        then show ?thesis by blast
      next
        case (Inr ps)
        from params_loop_Inr_ids [OF this] False show ?thesis by simp
      qed
      with ex left show ?thesis by auto
    qed
  next
    case False
    then show ?thesis by (cases left) auto
  qed
next
  show "(\<forall>(p, c) \<in> set args. \<exists>t a. p = Identifier t a) \<longrightarrow>
      (\<exists>params. lambda_params (Paren_Phrase lp args rp) = Inr params \<and>
         map_of params = map_of (rev (zip (arg_atoms args) [0..<length args])) \<and>
         length params = card (set (arg_atoms args)))"
  proof
    assume "\<forall>(p, c) \<in> set args. \<exists>t a. p = Identifier t a"
    then have "\<forall>(p, c) \<in> set args. identifier_atom p \<noteq> None" by auto
    from params_loop_Inr [OF this, of "[]" 0] obtain ps where
      ps: "params_loop args [] 0 = Inr ps" and
      m: "map_of ps = map_of (rev (zip (arg_atoms args) [0..<length args]))" and
      d: "distinct (map fst ps)" and s: "set (map fst ps) = set (arg_atoms args)"
      by auto
    from d s have "length ps = card (set (arg_atoms args))"
      by (metis distinct_card length_map)
    with ps m show "\<exists>params. lambda_params (Paren_Phrase lp args rp) = Inr params \<and>
         map_of params = map_of (rev (zip (arg_atoms args) [0..<length args])) \<and>
         length params = card (set (arg_atoms args))"
      by simp
  qed
next
  show "analyze rtl lam_xx env =
     Inr (Lambda_Expr lam_xx (Arg_Ref (Identifier (tk k_ident 7 8) ''x'') 1) [] 1 1, env)"
    by (rule analyze_lam_xx)
qed

text \<open>
  The claim at \<open>(x,x)\<close>, at the left side \<open>1\<close> and at \<open>(x,x)->x\<close> among the builtins.
\<close>

definition xx_args :: "(phrase \<times> token) list" where
  "xx_args = [(Identifier (tk k_ident 1 2) ''x'', tk k_comma 2 3),
              (Identifier (tk k_ident 3 4) ''x'', Token_default)]"

theorem lambda_parameters_witness:
  "lambda_params (Paren_Phrase (tk k_lparen 0 1) xx_args (tk k_rparen 4 5)) = Inr [(''x'', 1)] \<and>
   length [(''x'', 1::nat)] = card (set (arg_atoms xx_args)) \<and>
   lambda_params (Numeral (tk k_num 0 1) ''1'') =
     Inl (Exception (At_Phrase (Numeral (tk k_num 0 1) ''1'')) ''not a parameter'') \<and>
   analyze False lam_xx builtin_env =
     Inr (Lambda_Expr lam_xx (Arg_Ref (Identifier (tk k_ident 7 8) ''x'') 1) [] 1 1, builtin_env)"
  using lambda_parameters [of "Numeral (tk k_num 0 1) ''1''"
      "Exception (At_Phrase (Numeral (tk k_num 0 1) ''1'')) ''not a parameter''"
      xx_args "tk k_lparen 0 1" "tk k_rparen 4 5" False builtin_env]
  by (simp add: xx_args_def)

section \<open>Lookup along the parent chain\<close>

text \<open>
  The scopes from an environment outward, and an environment with its \<open>k\<close>-th ancestor
  replaced (the scope that answered may have captured a nonlocal).
\<close>

fun scopes :: "environ \<Rightarrow> environ list" where
  "scopes (Environ sc ns ms None) = [Environ sc ns ms None]"
| "scopes (Environ sc ns ms (Some p)) = Environ sc ns ms (Some p) # scopes p"

fun with_ancestor :: "nat \<Rightarrow> environ \<Rightarrow> environ \<Rightarrow> environ" where
  "with_ancestor 0 e' env = e'"
| "with_ancestor (Suc k) e' (Environ sc ns ms (Some p)) = Environ sc ns ms (Some (with_ancestor k e' p))"
| "with_ancestor (Suc k) e' (Environ sc ns ms None) = Environ sc ns ms None"

lemma single_lookup_None_same:
  "single_lookup env t a = Inr (None, env') \<Longrightarrow> env' = env"
  by (cases "(env, t, a)" rule: single_lookup.cases)
    (auto split: option.splits if_splits sum.splits)

lemma scopes_nonempty [simp]: "scopes env \<noteq> []" and scopes_hd [simp]: "scopes env ! 0 = env"
  by (cases env; cases "parent env"; simp)+

lemma lookup_found:
  assumes "k < length (scopes env)"
    and "\<forall>j<k. single_lookup (scopes env ! j) t a = Inr (None, scopes env ! j)"
  shows "(single_lookup (scopes env ! k) t a = Inr (Some m, e') \<longrightarrow>
            lookup env t a = Inr (m, with_ancestor k e' env)) \<and>
         (single_lookup (scopes env ! k) t a = Inl x \<longrightarrow> lookup env t a = Inl x)"
  using assms
proof (induction k arbitrary: env)
  case 0
  obtain sc ns ms par where env: "env = Environ sc ns ms par" by (cases env)
  show ?case unfolding scopes_hd by (auto simp: env)
next
  case (Suc k)
  obtain sc ns ms par where env: "env = Environ sc ns ms par" by (cases env)
  from Suc.prems(1) env obtain p where par: "par = Some p" by (cases par) auto
  from Suc.prems(2) [rule_format, of 0] have s0: "single_lookup env t a = Inr (None, env)"
    by simp
  have "k < length (scopes p)" using Suc.prems(1) env par by simp
  moreover have "\<forall>j<k. single_lookup (scopes p ! j) t a = Inr (None, scopes p ! j)"
    using Suc.prems(2) env par by (auto dest: spec [of _ "Suc j" for j])
  ultimately have IH:
    "(single_lookup (scopes p ! k) t a = Inr (Some m, e') \<longrightarrow>
        lookup p t a = Inr (m, with_ancestor k e' p)) \<and>
     (single_lookup (scopes p ! k) t a = Inl x \<longrightarrow> lookup p t a = Inl x)"
    by (rule Suc.IH)
  have "scopes env ! Suc k = scopes p ! k" using env par by simp
  with IH s0 env par show ?case by auto
qed

lemma lookup_not_defined:
  assumes "\<forall>e \<in> set (scopes env). single_lookup e t a = Inr (None, e)"
  shows "lookup env t a = Inl (Exception (At_Phrase (Identifier t a)) (a @ '': not defined''))"
  using assms
proof (induction env)
  case (Environ sc ns ms par)
  show ?case
  proof (cases par)
    case None
    with Environ.prems show ?thesis by simp
  next
    case (Some p)
    with Environ.prems have "\<forall>e \<in> set (scopes p). single_lookup e t a = Inr (None, e)" by simp
    with Environ.IH [of p] Some have
      "lookup p t a = Inl (Exception (At_Phrase (Identifier t a)) (a @ '': not defined''))"
      by simp
    with Environ.prems Some show ?thesis by simp
  qed
qed

text \<open>
  C8. \<open>Environ::lookup\<close> tries \<open>single_lookup\<close> on each scope from the innermost
  outward and returns the first answer that is not absent: when the scopes before the
  \<open>k\<close>-th answer \<open>nullptr\<close>, the result of the lookup is the meaning (or the exception)
  of the \<open>k\<close>-th scope, and the environment is the one given with that scope updated.
  When every scope answers \<open>nullptr\<close> it raises "<name>: not defined" at the identifier.
  A scope that answers \<open>nullptr\<close> is left as it was, and the builtin scope answers
  \<open>to_meaning\<close> of the builtin found under the name.
\<close>

theorem lookup_walks_parent_chain:
  "(k < length (scopes env) \<and>
    (\<forall>j<k. single_lookup (scopes env ! j) t a = Inr (None, scopes env ! j)) \<longrightarrow>
      (single_lookup (scopes env ! k) t a = Inr (Some m, e') \<longrightarrow>
         lookup env t a = Inr (m, with_ancestor k e' env)) \<and>
      (single_lookup (scopes env ! k) t a = Inl x \<longrightarrow> lookup env t a = Inl x)) \<and>
   ((\<forall>e \<in> set (scopes env). single_lookup e t a = Inr (None, e)) \<longrightarrow>
      lookup env t a = Inl (Exception (At_Phrase (Identifier t a)) (a @ '': not defined''))) \<and>
   (single_lookup env t a = Inr (None, e'') \<longrightarrow> e'' = env) \<and>
   single_lookup (Environ (Builtin_Environ names) ns ms par) t a =
     Inr (map_option (\<lambda>b. to_meaning b (Identifier t a)) (map_of names a),
          Environ (Builtin_Environ names) ns ms par)"
  using lookup_found [of k env t a m e' x] lookup_not_defined [of env t a]
    single_lookup_None_same [of env t a e'']
  by (auto split: option.splits)

text \<open>
  The claim in the scope of \<open>let (a = 1)\<close> above the builtins: \<open>pi\<close> is answered by the
  second scope, \<open>a\<close> by the first, \<open>foo\<close> by none.
\<close>

definition let_env :: environ where
  "let_env = make_Let_Environ builtin_env [(''a'', 0, Numeral (tk k_num 6 7) ''1'')]"

theorem lookup_walks_parent_chain_witness:
  "lookup let_env (tk k_ident 0 2) ''pi'' =
     Inr (Constant (Identifier (tk k_ident 0 2) ''pi'') (Num_Value Pi), let_env) \<and>
   lookup let_env (tk k_ident 0 1) ''a'' = Inr (Let_Ref (Identifier (tk k_ident 0 1) ''a'') 0, let_env) \<and>
   lookup let_env (tk k_ident 0 3) ''foo'' =
     Inl (Exception (At_Phrase (Identifier (tk k_ident 0 3) ''foo'')) ''foo: not defined'')"
  using lookup_walks_parent_chain [of 1 let_env "tk k_ident 0 2" "''pi''"
      "Constant (Identifier (tk k_ident 0 2) ''pi'') (Num_Value Pi)" builtin_env Bad_Cast let_env
      builtin_namespace 0 0 None]
    lookup_walks_parent_chain [of 0 let_env "tk k_ident 0 1" "''a''"
      "Let_Ref (Identifier (tk k_ident 0 1) ''a'') 0" let_env Bad_Cast let_env
      builtin_namespace 0 0 None]
    lookup_walks_parent_chain [of 0 let_env "tk k_ident 0 3" "''foo''"
      "Let_Ref (Identifier (tk k_ident 0 1) ''a'') 0" let_env Bad_Cast let_env
      builtin_namespace 0 0 None]
  by (simp add: let_env_def make_Let_Environ_def builtin_env_def builtin_namespace_def)

section \<open>The dot operator\<close>

text \<open>The phrase \<open>pi.[1,2]\<close>.\<close>

definition dot_list_ex :: phrase where
  "dot_list_ex = Binary_Phrase (Identifier (tk k_ident 0 2) ''pi'') (tk k_dot 2 3)
     (Bracket_Phrase (tk k_lbracket 3 4)
        [(Numeral (tk k_num 4 5) ''1'', tk k_comma 5 6), (Numeral (tk k_num 6 7) ''2'', Token_default)]
        (tk k_rbracket 7 8))"

text \<open>
  Against C6 as stated ("in every other case raises invalid expression after '.'"): the
  right side of \<open>pi.[1,2]\<close> is neither an identifier nor a bracketed list of one
  element, and the analysis raises "not an expression" at the whole phrase, which is
  not the exception "invalid expression after '.'" at the right side.
\<close>

theorem dot_list_counterexample:
  "analyze False dot_list_ex builtin_env = Inl (Exception (At_Phrase dot_list_ex) ''not an expression'') \<and>
   Exception (At_Phrase dot_list_ex) ''not an expression'' \<noteq>
     Exception (At_Phrase (Bracket_Phrase (tk k_lbracket 3 4)
        [(Numeral (tk k_num 4 5) ''1'', tk k_comma 5 6), (Numeral (tk k_num 6 7) ''2'', Token_default)]
        (tk k_rbracket 7 8))) msg_after_dot"
  by (simp add: dot_list_ex_def tk_def msg_after_dot_def)

lemma dot_rhs_of_Other:
  assumes "\<forall>t a. right \<noteq> Identifier t a" and "\<forall>lb args rb. right \<noteq> Bracket_Phrase lb args rb"
  shows "dot_rhs_of right = Dot_Other"
  using assms by (cases right) auto

lemma dot_rhs_of_Bad_List:
  assumes "\<not> (length args = 1 \<and> kind (snd (args ! 0)) = k_missing)"
  shows "dot_rhs_of (Bracket_Phrase lb args rb) = Dot_Bad_List"
proof (cases args)
  case Nil
  then show ?thesis by simp
next
  case (Cons x xs)
  with assms show ?thesis by (cases x; cases xs) auto
qed

text \<open>
  C6, amended. For a \<open>Binary_Phrase\<close> with operator \<open>.\<close>: when the right side is an
  identifier the result is \<open>Dot_Expr(lhs, atom)\<close>, or the exception of the left side;
  when it is a bracketed list of exactly one element with no separator, the index is
  analysed first, then the left side, and the result is \<open>At_Expr(lhs, index)\<close>; when it
  is any other bracketed list the analysis raises "not an expression" at the whole
  phrase; for every other right side it raises "invalid expression after '.'" at the
  right side.
\<close>

theorem dot_operator:
  assumes "kind op = k_dot"
  shows
  "analyze rtl (Binary_Phrase left op (Identifier t a)) env =
     (case analyze_op rtl left env of
        Inl e \<Rightarrow> Inl e
      | Inr (l, env') \<Rightarrow> Inr (Dot_Expr (Binary_Phrase left op (Identifier t a)) l a, env')) \<and>
   (kind c = k_missing \<longrightarrow>
      analyze rtl (Binary_Phrase left op (Bracket_Phrase lb [(ix, c)] rb)) env =
        (case analyze_op rtl ix env of
           Inl e \<Rightarrow> Inl e
         | Inr (index, env1) \<Rightarrow>
             (case analyze_op rtl left env1 of
                Inl e \<Rightarrow> Inl e
              | Inr (l, env2) \<Rightarrow>
                  Inr (At_Expr (Binary_Phrase left op (Bracket_Phrase lb [(ix, c)] rb)) l index, env2)))) \<and>
   (\<not> (length args = 1 \<and> kind (snd (args ! 0)) = k_missing) \<longrightarrow>
      analyze rtl (Binary_Phrase left op (Bracket_Phrase lb args rb)) env =
        Inl (Exception (At_Phrase (Binary_Phrase left op (Bracket_Phrase lb args rb))) ''not an expression'')) \<and>
   ((\<forall>t a. right \<noteq> Identifier t a) \<and> (\<forall>lb args rb. right \<noteq> Bracket_Phrase lb args rb) \<longrightarrow>
      analyze rtl (Binary_Phrase left op right) env = Inl (Exception (At_Phrase right) msg_after_dot))"
  unfolding analyze_op_def using assms
  by (auto simp: dot_rhs_of_Other dot_rhs_of_Bad_List)

text \<open>The four cases at \<open>pi.[1,2]\<close>, \<open>pi.1\<close>, \<open>pi.x\<close> and \<open>pi.[0]\<close>.\<close>

definition dot_num_ex :: phrase where
  "dot_num_ex = Binary_Phrase (Identifier (tk k_ident 0 2) ''pi'') (tk k_dot 2 3) (Numeral (tk k_num 3 4) ''1'')"

theorem dot_operator_witness:
  "kind (tk k_dot 2 3) = k_dot \<and>
   analyze False dot_list_ex builtin_env =
     Inl (Exception (At_Phrase dot_list_ex) ''not an expression'') \<and>
   analyze False dot_num_ex builtin_env =
     Inl (Exception (At_Phrase (Numeral (tk k_num 3 4) ''1'')) msg_after_dot) \<and>
   analyze False (Binary_Phrase (Identifier (tk k_ident 0 2) ''pi'') (tk k_dot 2 3)
       (Identifier (tk k_ident 3 4) ''x'')) builtin_env =
     Inr (Dot_Expr (Binary_Phrase (Identifier (tk k_ident 0 2) ''pi'') (tk k_dot 2 3)
            (Identifier (tk k_ident 3 4) ''x''))
          (Constant (Identifier (tk k_ident 0 2) ''pi'') (Num_Value Pi)) ''x'', builtin_env) \<and>
   analyze False (Binary_Phrase (Identifier (tk k_ident 0 2) ''pi'') (tk k_dot 2 3)
       (Bracket_Phrase (tk k_lbracket 3 4) [(Numeral (tk k_num 4 5) ''0'', Token_default)]
          (tk k_rbracket 5 6))) builtin_env =
     Inr (At_Expr (Binary_Phrase (Identifier (tk k_ident 0 2) ''pi'') (tk k_dot 2 3)
            (Bracket_Phrase (tk k_lbracket 3 4) [(Numeral (tk k_num 4 5) ''0'', Token_default)]
               (tk k_rbracket 5 6)))
          (Constant (Identifier (tk k_ident 0 2) ''pi'') (Num_Value Pi))
          (Constant (Numeral (tk k_num 4 5) ''0'') (Num_Value (Strtod ''0''))), builtin_env)"
proof -
  have k: "kind (tk k_dot 2 3) = k_dot" by (simp add: tk_def)
  show ?thesis
    using k dot_operator [OF k, of False "Identifier (tk k_ident 0 2) ''pi''" "tk k_ident 3 4" "''x''"
      builtin_env Token_default "tk k_lbracket 3 4" "Numeral (tk k_num 4 5) ''0''" "tk k_rbracket 5 6"
      "[(Numeral (tk k_num 4 5) ''1'', tk k_comma 5 6), (Numeral (tk k_num 6 7) ''2'', Token_default)]"
      "Numeral (tk k_num 3 4) ''1''"]
    by (simp add: dot_list_ex_def dot_num_ex_def analyze_op_def builtin_env_def builtin_namespace_def
        Token_default_def)
qed

section \<open>Let\<close>

text \<open>
  Phase 1 appends one binding per argument, with consecutive slots; the loop over the
  bindings writes each value once, at the index of its slot.
\<close>

lemma let_bindings_Inr:
  assumes "let_bindings args bs slot = Inr bs'"
  shows "\<exists>new. bs' = bs @ new \<and> length new = length args \<and>
           (\<forall>i<length args. \<exists>t a d. analyze_def (fst (args ! i)) = Inr (Some (Definition t a d)) \<and>
               new ! i = (a, slot + i, d))"
  using assms
proof (induction args arbitrary: bs slot)
  case Nil
  then show ?case by simp
next
  case (Cons x rest)
  obtain p c where x: "x = (p, c)" by (cases x)
  from Cons.prems x obtain t a d where
    def: "analyze_def p = Inr (Some (Definition t a d))" and
    rest: "let_bindings rest (bs @ [(a, slot, d)]) (Suc slot) = Inr bs'"
    by (auto split: sum.splits option.splits defn.splits)
  from Cons.IH [OF rest] obtain new where
    bs': "bs' = (bs @ [(a, slot, d)]) @ new" and len: "length new = length rest" and
    each: "\<forall>i<length rest. \<exists>t a d. analyze_def (fst (rest ! i)) = Inr (Some (Definition t a d)) \<and>
               new ! i = (a, Suc slot + i, d)"
    by blast
  have "\<forall>i<length (x # rest). \<exists>t' a' d'.
          analyze_def (fst ((x # rest) ! i)) = Inr (Some (Definition t' a' d')) \<and>
          ((a, slot, d) # new) ! i = (a', slot + i, d')"
  proof (intro allI impI)
    fix i assume i: "i < length (x # rest)"
    show "\<exists>t' a' d'. analyze_def (fst ((x # rest) ! i)) = Inr (Some (Definition t' a' d')) \<and>
          ((a, slot, d) # new) ! i = (a', slot + i, d')"
    proof (cases i)
      case 0
      with def x show ?thesis by simp
    next
      case (Suc j)
      with i each show ?thesis by simp
    qed
  qed
  with bs' len show ?case
    by (intro exI [of _ "(a, slot, d) # new"]) simp
qed

text \<open>
  The loop of phase 2 over the bindings is named \<open>let_values\<close>, and the equation of
  \<open>analyze\<close> for a \<open>Let_Phrase\<close> restated with it. A run of the loop writes each value
  once, at the index of its slot, and the environment in which a definiens is
  analysed is the one that the run over the bindings before it has left.
\<close>

definition let_values :: "bool \<Rightarrow> nat \<Rightarrow> (atom \<times> nat \<times> phrase) list \<Rightarrow> value list \<Rightarrow> environ \<Rightarrow>
    exception + (value list \<times> environ)" where
  "let_values rtl first bs values env =
     foldM_env
       (\<lambda>(a, slot, ph) values e.
          case to_operation (analyze rtl ph e) of
            Inl x \<Rightarrow> Inl x
          | Inr (expr, e') \<Rightarrow> Inr (values[slot - first := Thunk expr], e'))
       bs values env"

lemma analyze_Let_Phrase:
  "analyze rtl (Let_Phrase lt lp args rp body) env =
     (case let_bindings args [] (frame_nslots env) of
        Inl e \<Rightarrow> Inl e
      | Inr bindings \<Rightarrow>
          (case let_values rtl (frame_nslots env) (sort_key fst bindings)
                  (replicate (length bindings) Null_Value) (make_Let_Environ env bindings) of
             Inl e \<Rightarrow> Inl e
           | Inr (values, env2) \<Rightarrow>
               (case analyze_op rtl body env2 of
                  Inl e \<Rightarrow> Inl e
                | Inr (b, env2') \<Rightarrow>
                    if frame_maxslots env2' < length bindings then Inl Assertion_Failed
                    else Inr (Let_Expr (Let_Phrase lt lp args rp body) (frame_nslots env) values b,
                              set_frame_maxslots (parent_of env env2') (frame_maxslots env2')))))"
  unfolding let_values_def analyze_op_def by simp

lemma let_values_Nil [simp]: "let_values rtl first [] vs e = Inr (vs, e)"
  by (simp add: let_values_def)

lemma let_values_Cons:
  "let_values rtl first ((a, slot, ph) # xs) vs e =
     (case analyze_op rtl ph e of
        Inl x \<Rightarrow> Inl x
      | Inr (expr, e') \<Rightarrow> let_values rtl first xs (vs[slot - first := Thunk expr]) e')"
  by (simp add: let_values_def analyze_op_def split: sum.splits)

lemma let_values_rel:
  assumes "let_values rtl first xs vs e0 = Inr (vs', e1)"
  shows "env_rel e0 e1 \<and> length vs' = length vs \<and>
         (\<forall>j. j \<notin> (\<lambda>(a, slot, ph). slot - first) ` set xs \<longrightarrow> vs' ! j = vs ! j)"
  using assms
proof (induction xs arbitrary: vs e0)
  case Nil
  then show ?case by simp
next
  case (Cons x xs)
  obtain a slot ph where x: "x = (a, slot, ph)" by (cases x)
  from Cons.prems x obtain expr e' where
    step: "analyze_op rtl ph e0 = Inr (expr, e')" and
    rest: "let_values rtl first xs (vs[slot - first := Thunk expr]) e' = Inr (vs', e1)"
    by (auto simp: let_values_Cons split: sum.splits)
  from step have "env_rel e0 e'"
    by (auto simp: analyze_op_def dest: to_operation_Inr analyze_env_rel)
  with Cons.IH [OF rest] x show ?case
    by (auto intro: env_rel_trans)
qed

lemma let_values_run:
  assumes "let_values rtl first xs vs e0 = Inr (vs', e1)"
    and "distinct (map (\<lambda>(a, slot, ph). slot - first) xs)"
    and "j < length xs" and "xs ! j = (a, slot, ph)"
  shows "\<exists>vsj ej x ej'.
           let_values rtl first (take j xs) vs e0 = Inr (vsj, ej) \<and>
           analyze_op rtl ph ej = Inr (x, ej') \<and>
           (slot - first < length vs \<longrightarrow> vs' ! (slot - first) = Thunk x)"
  using assms
proof (induction xs arbitrary: vs e0 j)
  case Nil
  then show ?case by simp
next
  case (Cons y xs)
  obtain a0 slot0 ph0 where y: "y = (a0, slot0, ph0)" by (cases y)
  from Cons.prems(1) y obtain expr e' where
    step: "analyze_op rtl ph0 e0 = Inr (expr, e')" and
    rest: "let_values rtl first xs (vs[slot0 - first := Thunk expr]) e' = Inr (vs', e1)"
    by (auto simp: let_values_Cons split: sum.splits)
  from Cons.prems(2) y have d: "distinct (map (\<lambda>(a, slot, ph). slot - first) xs)"
    and notin: "slot0 - first \<notin> (\<lambda>(a, slot, ph). slot - first) ` set xs"
    by auto
  show ?case
  proof (cases j)
    case 0
    with Cons.prems(4) y have eq: "a = a0" "slot = slot0" "ph = ph0" by simp_all
    from let_values_rel [OF rest] notin have
      "slot0 - first < length vs \<longrightarrow> vs' ! (slot0 - first) = Thunk expr"
      by simp
    with 0 step eq show ?thesis by auto
  next
    case (Suc k)
    with Cons.prems(3,4) have k: "k < length xs" and xk: "xs ! k = (a, slot, ph)" by simp_all
    from Cons.IH [OF rest d k xk] obtain vsj ej x ej' where
      "let_values rtl first (take k xs) (vs[slot0 - first := Thunk expr]) e' = Inr (vsj, ej)"
      "analyze_op rtl ph ej = Inr (x, ej')"
      "slot - first < length vs \<longrightarrow> vs' ! (slot - first) = Thunk x"
      by auto
    with Suc y step show ?thesis
      by (auto simp: let_values_Cons)
  qed
qed

lemma set_frame_maxslots_counters:
  "frame_maxslots (set_frame_maxslots p n) = n"
  "frame_nslots (set_frame_maxslots p n) = frame_nslots p"
  by (cases p; simp)+

text \<open>The phrase \<open>let(a=1, b=a+1) b\<close>.\<close>

definition let_ex :: phrase where
  "let_ex = Let_Phrase (tk k_let 0 3) (tk k_lparen 3 4)
     [(Definition_Phrase (Identifier (tk k_ident 4 5) ''a'') (tk k_equate 5 6)
         (Numeral (tk k_num 6 7) ''1''), tk k_comma 7 8),
      (Definition_Phrase (Identifier (tk k_ident 9 10) ''b'') (tk k_equate 10 11)
         (Binary_Phrase (Identifier (tk k_ident 11 12) ''a'') (tk k_plus 12 13)
            (Numeral (tk k_num 13 14) ''1'')), Token_default)]
     (tk k_rparen 14 15) (Identifier (tk k_ident 16 17) ''b'')"

lemma analyze_let_ex:
  "analyze rtl let_ex builtin_env =
     Inr (Let_Expr let_ex 0
            [Thunk (Constant (Numeral (tk k_num 6 7) ''1'') (Num_Value (Strtod ''1''))),
             Thunk (Infix_Expr
                      (Binary_Phrase (Identifier (tk k_ident 11 12) ''a'') (tk k_plus 12 13)
                         (Numeral (tk k_num 13 14) ''1''))
                      k_plus (Let_Ref (Identifier (tk k_ident 11 12) ''a'') 0)
                      (Constant (Numeral (tk k_num 13 14) ''1'') (Num_Value (Strtod ''1''))))]
            (Let_Ref (Identifier (tk k_ident 16 17) ''b'') 1),
          set_frame_maxslots builtin_env 2)"
  by (simp add: let_ex_def builtin_env_def make_Let_Environ_def tk_def ordered_def mapM_env_def
      binary_node_def)

lemma let_analysis_run:
  assumes "analyze rtl (Let_Phrase lt lp args rp body) env = Inr (m, env')"
  shows "\<exists>bindings values env2 b env2'.
      let_bindings args [] (frame_nslots env) = Inr bindings \<and>
      length bindings = length args \<and> length values = length args \<and>
      let_values rtl (frame_nslots env) (sort_key fst bindings)
        (replicate (length args) Null_Value) (make_Let_Environ env bindings) = Inr (values, env2) \<and>
      analyze_op rtl body env2 = Inr (b, env2') \<and>
      m = Let_Expr (Let_Phrase lt lp args rp body) (frame_nslots env) values b \<and>
      env' = set_frame_maxslots (parent_of env env2') (frame_maxslots env2') \<and>
      scope env2' = Let_Environ bindings \<and>
      frame_nslots env2' = frame_nslots env + length args \<and>
      frame_maxslots env' = frame_maxslots env2' \<and>
      (\<forall>i<length args. \<exists>t a d pre post vs ei x ei'.
          analyze_def (fst (args ! i)) = Inr (Some (Definition t a d)) \<and>
          bindings ! i = (a, frame_nslots env + i, d) \<and>
          sort_key fst bindings = pre @ (a, frame_nslots env + i, d) # post \<and>
          let_values rtl (frame_nslots env) pre (replicate (length args) Null_Value)
            (make_Let_Environ env bindings) = Inr (vs, ei) \<and>
          analyze_op rtl d ei = Inr (x, ei') \<and> values ! i = Thunk x)"
proof -
  let ?first = "frame_nslots env"
  from assms obtain bindings "values" env2 b env2' where
    lb: "let_bindings args [] ?first = Inr bindings" and
    vs: "let_values rtl ?first (sort_key fst bindings) (replicate (length bindings) Null_Value)
           (make_Let_Environ env bindings) = Inr (values, env2)" and
    bd: "analyze_op rtl body env2 = Inr (b, env2')" and
    m: "m = Let_Expr (Let_Phrase lt lp args rp body) ?first values b" and
    env': "env' = set_frame_maxslots (parent_of env env2') (frame_maxslots env2')"
    unfolding analyze_Let_Phrase by (auto split: sum.splits if_splits)
  from let_bindings_Inr [OF lb] have len: "length bindings = length args" and
    each: "\<forall>i<length args. \<exists>t a d. analyze_def (fst (args ! i)) = Inr (Some (Definition t a d)) \<and>
               bindings ! i = (a, ?first + i, d)"
    by auto
  have keys: "map (\<lambda>(a, slot, ph). slot - ?first) bindings = [0..<length args]"
  proof (rule nth_equalityI)
    show "length (map (\<lambda>(a, slot, ph). slot - ?first) bindings) = length [0..<length args]"
      using len by simp
  next
    fix i assume "i < length (map (\<lambda>(a, slot, ph). slot - ?first) bindings)"
    then have i: "i < length args" using len by simp
    with each obtain t a d where "bindings ! i = (a, ?first + i, d)" by blast
    with i len show "map (\<lambda>(a, slot, ph). slot - ?first) bindings ! i = [0..<length args] ! i"
      by simp
  qed
  then have "distinct (map (\<lambda>(a, slot, ph). slot - ?first) bindings)" by simp
  then have dist: "distinct (map (\<lambda>(a, slot, ph). slot - ?first) (sort_key fst bindings))"
    by (simp add: distinct_map)
  from let_values_rel [OF vs] have
    lv: "length values = length args" and r1: "env_rel (make_Let_Environ env bindings) env2"
    using len by simp_all
  from bd have r2: "env_rel env2 env2'"
    by (auto simp: analyze_op_def dest: to_operation_Inr analyze_env_rel)
  from env_rel_trans [OF r1 r2] have
    sc: "scope env2' = Let_Environ bindings" and ns: "frame_nslots env2' = ?first + length args"
    using len by (cases env2'; simp add: make_Let_Environ_def env_rel_Environ)+
  have all: "\<exists>t a d pre post vs ei x ei'.
          analyze_def (fst (args ! i)) = Inr (Some (Definition t a d)) \<and>
          bindings ! i = (a, ?first + i, d) \<and>
          sort_key fst bindings = pre @ (a, ?first + i, d) # post \<and>
          let_values rtl ?first pre (replicate (length args) Null_Value)
            (make_Let_Environ env bindings) = Inr (vs, ei) \<and>
          analyze_op rtl d ei = Inr (x, ei') \<and> values ! i = Thunk x" if i: "i < length args" for i
  proof -
    from each i obtain t a d where
      def: "analyze_def (fst (args ! i)) = Inr (Some (Definition t a d))" and
      bi: "bindings ! i = (a, ?first + i, d)" by blast
    from bi i len have "(a, ?first + i, d) \<in> set (sort_key fst bindings)"
      by (metis nth_mem set_sort)
    then obtain j where j: "j < length (sort_key fst bindings)" and
      xj: "sort_key fst bindings ! j = (a, ?first + i, d)"
      unfolding in_set_conv_nth by blast
    from let_values_run [OF vs dist j xj] i len obtain vsj ej x ej' where
      pre: "let_values rtl ?first (take j (sort_key fst bindings))
              (replicate (length args) Null_Value) (make_Let_Environ env bindings) = Inr (vsj, ej)" and
      an: "analyze_op rtl d ej = Inr (x, ej')" and val: "values ! i = Thunk x"
      by auto
    from id_take_nth_drop [OF j] xj have "sort_key fst bindings =
        take j (sort_key fst bindings) @ (a, ?first + i, d) # drop (Suc j) (sort_key fst bindings)"
      by (simp del: length_sort)
    with def bi pre an val show ?thesis by blast
  qed
  have ms: "frame_maxslots env' = frame_maxslots env2'"
    using env' by (simp add: set_frame_maxslots_counters)
  from vs len have vs': "let_values rtl ?first (sort_key fst bindings)
        (replicate (length args) Null_Value) (make_Let_Environ env bindings) = Inr (values, env2)"
    by simp
  show ?thesis
    by (intro exI [of _ bindings] exI [of _ "values"] exI [of _ b] exI [of _ env2]
        exI [of _ env2'] conjI allI impI)
      (use lb len lv vs' bd m env' sc ns ms all in simp_all)
qed

text \<open>
  C3. When \<open>let(def1,...,defn) body\<close> is analysed without error in \<open>env\<close>, phase 1
  yields the bindings: the \<open>i\<close>-th argument is a definition and its binding has slot
  \<open>frame_nslots env + i\<close> (consecutive slots in textual order). The result is a
  \<open>Let_Expr\<close> whose \<open>first_slot\<close> is \<open>frame_nslots env\<close> and whose values array is
  the one that the loop \<open>let_values\<close> over the bindings leaves, started in the new
  \<open>Let_Environ\<close>: it has \<open>n\<close> entries, the \<open>i\<close>-th being the \<open>Thunk\<close> of the definiens
  of the \<open>i\<close>-th binding, analysed in the \<open>Let_Environ\<close> that the loop over the
  bindings before it has left. The body is analysed in the \<open>Let_Environ\<close> \<open>env2\<close> that
  the loop has left, which leaves it as \<open>env2'\<close>, still the scope of these bindings;
  and the outer environment is returned with \<open>frame_maxslots\<close> set to that of
  \<open>env2'\<close>. In particular \<open>let(a=1, b=a+1) b\<close> among the builtins yields
  \<open>Let_Expr(0, [Thunk(Constant(1)), Thunk(Infix_Expr(+, Let_Ref(0), Constant(1)))], Let_Ref(1))\<close>,
  whichever operand of \<open>+\<close> is analysed first.
\<close>

theorem let_analysis:
  "(analyze rtl (Let_Phrase lt lp args rp body) env = Inr (m, env') \<longrightarrow>
    (\<exists>bindings values env2 b env2'.
      let_bindings args [] (frame_nslots env) = Inr bindings \<and>
      length bindings = length args \<and> length values = length args \<and>
      let_values rtl (frame_nslots env) (sort_key fst bindings)
        (replicate (length args) Null_Value) (make_Let_Environ env bindings) = Inr (values, env2) \<and>
      analyze_op rtl body env2 = Inr (b, env2') \<and>
      m = Let_Expr (Let_Phrase lt lp args rp body) (frame_nslots env) values b \<and>
      env' = set_frame_maxslots (parent_of env env2') (frame_maxslots env2') \<and>
      scope env2' = Let_Environ bindings \<and>
      frame_nslots env2' = frame_nslots env + length args \<and>
      frame_maxslots env' = frame_maxslots env2' \<and>
      (\<forall>i<length args. \<exists>t a d pre post vs ei x ei'.
          analyze_def (fst (args ! i)) = Inr (Some (Definition t a d)) \<and>
          bindings ! i = (a, frame_nslots env + i, d) \<and>
          sort_key fst bindings = pre @ (a, frame_nslots env + i, d) # post \<and>
          let_values rtl (frame_nslots env) pre (replicate (length args) Null_Value)
            (make_Let_Environ env bindings) = Inr (vs, ei) \<and>
          analyze_op rtl d ei = Inr (x, ei') \<and> values ! i = Thunk x))) \<and>
   analyze rtl let_ex builtin_env =
     Inr (Let_Expr let_ex 0
            [Thunk (Constant (Numeral (tk k_num 6 7) ''1'') (Num_Value (Strtod ''1''))),
             Thunk (Infix_Expr
                      (Binary_Phrase (Identifier (tk k_ident 11 12) ''a'') (tk k_plus 12 13)
                         (Numeral (tk k_num 13 14) ''1''))
                      k_plus (Let_Ref (Identifier (tk k_ident 11 12) ''a'') 0)
                      (Constant (Numeral (tk k_num 13 14) ''1'') (Num_Value (Strtod ''1''))))]
            (Let_Ref (Identifier (tk k_ident 16 17) ''b'') 1),
          set_frame_maxslots builtin_env 2)"
  using let_analysis_run [of rtl lt lp args rp body env m env'] analyze_let_ex [of rtl]
  by blast

text \<open>The general part of the claim at \<open>let(a=1, b=a+1) b\<close>, operands right to left.\<close>

theorem let_analysis_witness:
  "\<exists>bindings values env2 b env2'.
     analyze True let_ex builtin_env =
       Inr (Let_Expr let_ex (frame_nslots builtin_env) values b, set_frame_maxslots builtin_env 2) \<and>
     length bindings = 2 \<and> length values = 2 \<and>
     let_values True (frame_nslots builtin_env) (sort_key fst bindings)
       (replicate 2 Null_Value) (make_Let_Environ builtin_env bindings) = Inr (values, env2) \<and>
     analyze_op True (Identifier (tk k_ident 16 17) ''b'') env2 = Inr (b, env2') \<and>
     scope env2' = Let_Environ bindings \<and>
     frame_nslots env2' = frame_nslots builtin_env + 2 \<and>
     frame_maxslots (set_frame_maxslots builtin_env 2) = frame_maxslots env2'"
proof -
  let ?args = "[(Definition_Phrase (Identifier (tk k_ident 4 5) ''a'') (tk k_equate 5 6)
         (Numeral (tk k_num 6 7) ''1''), tk k_comma 7 8),
      (Definition_Phrase (Identifier (tk k_ident 9 10) ''b'') (tk k_equate 10 11)
         (Binary_Phrase (Identifier (tk k_ident 11 12) ''a'') (tk k_plus 12 13)
            (Numeral (tk k_num 13 14) ''1'')), Token_default)]"
  let ?m = "Let_Expr let_ex 0
            [Thunk (Constant (Numeral (tk k_num 6 7) ''1'') (Num_Value (Strtod ''1''))),
             Thunk (Infix_Expr
                      (Binary_Phrase (Identifier (tk k_ident 11 12) ''a'') (tk k_plus 12 13)
                         (Numeral (tk k_num 13 14) ''1''))
                      k_plus (Let_Ref (Identifier (tk k_ident 11 12) ''a'') 0)
                      (Constant (Numeral (tk k_num 13 14) ''1'') (Num_Value (Strtod ''1''))))]
            (Let_Ref (Identifier (tk k_ident 16 17) ''b'') 1)"
  note inst = let_analysis [of True "tk k_let 0 3" "tk k_lparen 3 4" ?args
     "tk k_rparen 14 15" "Identifier (tk k_ident 16 17) ''b''" builtin_env ?m
     "set_frame_maxslots builtin_env 2", folded let_ex_def]
  from inst have run: "analyze True let_ex builtin_env = Inr (?m, set_frame_maxslots builtin_env 2)"
    by (rule conjunct2)
  from inst [THEN conjunct1, rule_format, OF run] obtain bindings "values" env2 b env2' where
    "length bindings = length ?args" "length values = length ?args"
    "let_values True (frame_nslots builtin_env) (sort_key fst bindings)
       (replicate (length ?args) Null_Value) (make_Let_Environ builtin_env bindings) = Inr (values, env2)"
    "analyze_op True (Identifier (tk k_ident 16 17) ''b'') env2 = Inr (b, env2')"
    "?m = Let_Expr let_ex (frame_nslots builtin_env) values b"
    "scope env2' = Let_Environ bindings"
    "frame_nslots env2' = frame_nslots builtin_env + length ?args"
    "frame_maxslots (set_frame_maxslots builtin_env 2) = frame_maxslots env2'"
    by blast
  with run show ?thesis
    by (intro exI [of _ bindings] exI [of _ "values"] exI [of _ env2] exI [of _ b] exI [of _ env2'])
      (simp add: numeral_2_eq_2)
qed


section \<open>Modules\<close>

text \<open>
  \<open>Bindings::analyze_values\<close> is the first loop of phase 2 in the equation of
  \<open>analyze\<close> for a \<open>Module_Phrase\<close>; it is named here, and the equation restated with
  it. \<open>stmt_defs\<close> are the definitions among a list of statements, in order.
\<close>

definition analyze_values :: "bool \<Rightarrow> bindings \<Rightarrow> environ \<Rightarrow> exception + (value list \<times> environ)" where
  "analyze_values rtl fields env =
     foldM_env
       (\<lambda>ph slots e.
          case to_operation (analyze rtl ph e) of
            Inl x \<Rightarrow> Inl x
          | Inr (expr, e') \<Rightarrow>
              if is_Lambda_Phrase ph
              then (case lambda_value expr of
                      Inl x \<Rightarrow> Inl x
                    | Inr v \<Rightarrow> Inr (slots @ [v], e'))
              else Inr (slots @ [Thunk expr], e'))
       (slot_phrases fields) [] env"

fun def_name :: "defn \<Rightarrow> atom" where
  "def_name (Definition t a d) = a"

fun def_definiens :: "defn \<Rightarrow> phrase" where
  "def_definiens (Definition t a d) = d"

fun stmt_defs :: "phrase list \<Rightarrow> defn list" where
  "stmt_defs [] = []"
| "stmt_defs (st # rest) =
     (case analyze_def st of
        Inr (Some d) \<Rightarrow> d # stmt_defs rest
      | _ \<Rightarrow> stmt_defs rest)"

lemma analyze_Module_Phrase:
  "analyze rtl (Module_Phrase body) env =
     (case Statements body of
        Inl e \<Rightarrow> Inl e
      | Inr stmts \<Rightarrow>
          (case module_fields stmts (Bindings [] 0 []) [] of
             Inl e \<Rightarrow> Inl e
           | Inr (fields, elements) \<Rightarrow>
               (case analyze_values rtl fields (make_Bindings_Environ env fields) of
                  Inl e \<Rightarrow> Inl e
                | Inr (slots, env2) \<Rightarrow>
                    (case mapM_env (\<lambda>ph e. to_operation (analyze rtl ph e)) elements env2 of
                       Inl e \<Rightarrow> Inl e
                     | Inr (xelements, env2') \<Rightarrow>
                         Inr (Module_Expr (Module_Phrase (mark_body body)) (dictionary fields) slots
                                xelements (frame_maxslots env2'),
                              parent_of env env2')))))"
  unfolding analyze_values_def by simp

lemma module_fields_Inr:
  assumes "module_fields stmts (Bindings dict cur phrases) elements = Inr (fields, elements')"
  shows "dictionary fields =
           dict @ zip (map def_name (stmt_defs stmts)) [cur..<cur + length (stmt_defs stmts)] \<and>
         slot_phrases fields = phrases @ map (\<lambda>d. set_recursive (def_definiens d)) (stmt_defs stmts)"
  using assms
proof (induction stmts arbitrary: dict cur phrases elements)
  case Nil
  then show ?case by auto
next
  case (Cons st rest)
  show ?case
  proof (cases "analyze_def st")
    case (Inl e)
    with Cons.prems show ?thesis by simp
  next
    case (Inr od)
    show ?thesis
    proof (cases od)
      case None
      with Inr Cons.prems have
        "module_fields rest (Bindings dict cur phrases) (elements @ [st]) = Inr (fields, elements')"
        by simp
      from Cons.IH [OF this] Inr None show ?thesis by simp
    next
      case (Some d)
      obtain t a ph where d: "d = Definition t a ph" by (cases d)
      from Some Inr Cons.prems d have
        rest: "module_fields rest (Bindings (dict @ [(a, cur)]) (Suc cur) (phrases @ [set_recursive ph]))
                 elements = Inr (fields, elements')"
        by (auto split: option.splits)
      let ?n = "length (stmt_defs rest)"
      have up: "[cur..<cur + Suc ?n] = cur # [Suc cur..<Suc cur + ?n]"
        by (simp add: upt_rec)
      have z: "zip (a # map def_name (stmt_defs rest)) [cur..<cur + Suc ?n] =
                 (a, cur) # zip (map def_name (stmt_defs rest)) [Suc cur..<Suc cur + ?n]"
        unfolding up by simp
      have sd: "stmt_defs (st # rest) = d # stmt_defs rest"
        using Inr Some by simp
      from Cons.IH [OF rest] have
        "dictionary fields = dict @ (a, cur) #
           zip (map def_name (stmt_defs rest)) [Suc cur..<Suc cur + ?n]" and
        "slot_phrases fields = phrases @ set_recursive ph #
           map (\<lambda>d. set_recursive (def_definiens d)) (stmt_defs rest)"
        by simp_all
      then show ?thesis
        unfolding sd using z d by (simp del: upt_Suc)
    qed
  qed
qed

lemma analyze_values_fold:
  assumes "foldM_env
             (\<lambda>ph slots e.
                case to_operation (analyze rtl ph e) of
                  Inl x \<Rightarrow> Inl x
                | Inr (expr, e') \<Rightarrow>
                    if is_Lambda_Phrase ph
                    then (case lambda_value expr of
                            Inl x \<Rightarrow> Inl x
                          | Inr v \<Rightarrow> Inr (slots @ [v], e'))
                    else Inr (slots @ [Thunk expr], e'))
             phs acc e0 = Inr (slots, e1)"
  shows "\<exists>new. slots = acc @ new \<and> length new = length phs \<and>
           (\<forall>i<length phs. \<exists>ei ei' expr.
               env_rel e0 ei \<and> analyze_op rtl (phs ! i) ei = Inr (expr, ei') \<and>
               (if is_Lambda_Phrase (phs ! i)
                then \<exists>src body nl nargs nslots.
                       expr = Lambda_Expr src body nl nargs nslots \<and> new ! i = Lambda body nargs nslots
                else new ! i = Thunk expr))"
  using assms
proof (induction phs arbitrary: acc e0)
  case Nil
  then show ?case by simp
next
  case (Cons ph rest)
  from Cons.prems obtain expr e' v where
    step: "to_operation (analyze rtl ph e0) = Inr (expr, e')" and
    v: "if is_Lambda_Phrase ph then lambda_value expr = Inr v else v = Thunk expr" and
    rest: "foldM_env
             (\<lambda>ph slots e.
                case to_operation (analyze rtl ph e) of
                  Inl x \<Rightarrow> Inl x
                | Inr (expr, e') \<Rightarrow>
                    if is_Lambda_Phrase ph
                    then (case lambda_value expr of
                            Inl x \<Rightarrow> Inl x
                          | Inr v \<Rightarrow> Inr (slots @ [v], e'))
                    else Inr (slots @ [Thunk expr], e'))
             rest (acc @ [v]) e' = Inr (slots, e1)"
    by (auto split: sum.splits if_splits)
  from Cons.IH [OF rest] obtain new where
    slots: "slots = (acc @ [v]) @ new" and len: "length new = length rest" and
    each: "\<forall>i<length rest. \<exists>ei ei' expr.
               env_rel e' ei \<and> analyze_op rtl (rest ! i) ei = Inr (expr, ei') \<and>
               (if is_Lambda_Phrase (rest ! i)
                then \<exists>src body nl nargs nslots.
                       expr = Lambda_Expr src body nl nargs nslots \<and> new ! i = Lambda body nargs nslots
                else new ! i = Thunk expr)"
    by blast
  have r0: "env_rel e0 e'"
    using analyze_env_rel [OF to_operation_Inr [OF step]] .
  have v': "if is_Lambda_Phrase ph
            then \<exists>src body nl nargs nslots.
                   expr = Lambda_Expr src body nl nargs nslots \<and> v = Lambda body nargs nslots
            else v = Thunk expr"
    using v by (cases expr) (auto split: if_splits)
  have "\<exists>ei ei' expr.
               env_rel e0 ei \<and> analyze_op rtl ((ph # rest) ! i) ei = Inr (expr, ei') \<and>
               (if is_Lambda_Phrase ((ph # rest) ! i)
                then \<exists>src body nl nargs nslots.
                       expr = Lambda_Expr src body nl nargs nslots \<and>
                       (v # new) ! i = Lambda body nargs nslots
                else (v # new) ! i = Thunk expr)" if i: "i < length (ph # rest)" for i
  proof (cases i)
    case 0
    show ?thesis
      unfolding 0 using step v'
      by (intro exI [of _ e0] exI [of _ e'] exI [of _ expr]) (simp add: analyze_op_def)
  next
    case (Suc j)
    with i each obtain ei ei' ex where
      "env_rel e' ei" and "analyze_op rtl (rest ! j) ei = Inr (ex, ei')" and
      "if is_Lambda_Phrase (rest ! j)
       then \<exists>src body nl nargs nslots.
              ex = Lambda_Expr src body nl nargs nslots \<and> new ! j = Lambda body nargs nslots
       else new ! j = Thunk ex"
      by auto
    with r0 Suc show ?thesis
      by (intro exI [of _ ei] exI [of _ ei'] exI [of _ ex]) (auto intro: env_rel_trans)
  qed
  with slots len show ?case
    by (intro exI [of _ "v # new"]) simp
qed

lemma is_Lambda_Phrase_set_recursive [simp]: "is_Lambda_Phrase (set_recursive p) = is_Lambda_Phrase p"
  by (cases p) auto

text \<open>
  C2. In the environment of a module body, \<open>single_lookup\<close> resolves a name of the
  dictionary to \<open>Nonlocal_Function_Ref(slot)\<close> if the definiens of the slot is a
  \<open>Lambda_Phrase\<close> and to \<open>Module_Ref(slot)\<close> otherwise (and answers \<open>nullptr\<close> for any
  other name). When \<open>analyze_values\<close> succeeds, the slot value of each binding is the
  raw \<open>Lambda\<close> (body, nargs, nslots) of the \<open>Lambda_Expr\<close> its definiens analyses to
  in the lambda case, and the \<open>Thunk\<close> of the analysed definiens in every other case.
  A successful module analysis binds the \<open>i\<close>-th definition of the body to slot \<open>i\<close>,
  keeps its definiens (marked recursive, still a lambda exactly when it was one) as the
  phrase of that slot, and stores the values of \<open>analyze_values\<close> in the
  \<open>Module_Expr\<close>.
\<close>

theorem module_bindings:
  "single_lookup (Environ (Bindings_Environ b) ns ms par) t a =
     Inr (case map_of (dictionary b) a of
            None \<Rightarrow> None
          | Some slot \<Rightarrow>
              Some (if is_Lambda_Phrase (slot_phrases b ! slot)
                    then Nonlocal_Function_Ref (Identifier t a) slot
                    else Module_Ref (Identifier t a) slot),
          Environ (Bindings_Environ b) ns ms par) \<and>
   (analyze_values rtl fields env2 = Inr (slots, env2') \<longrightarrow>
      length slots = length (slot_phrases fields) \<and>
      (\<forall>i<length (slot_phrases fields). \<exists>ei ei' expr.
          env_rel env2 ei \<and> analyze_op rtl (slot_phrases fields ! i) ei = Inr (expr, ei') \<and>
          (if is_Lambda_Phrase (slot_phrases fields ! i)
           then \<exists>src body nl nargs nslots.
                  expr = Lambda_Expr src body nl nargs nslots \<and> slots ! i = Lambda body nargs nslots
           else slots ! i = Thunk expr))) \<and>
   (analyze rtl (Module_Phrase body) env = Inr (m, env') \<longrightarrow>
      (\<exists>stmts fields elements slots env2 xelements n.
          Statements body = Inr stmts \<and>
          module_fields stmts (Bindings [] 0 []) [] = Inr (fields, elements) \<and>
          dictionary fields = zip (map def_name (stmt_defs stmts)) [0..<length (stmt_defs stmts)] \<and>
          slot_phrases fields = map (\<lambda>d. set_recursive (def_definiens d)) (stmt_defs stmts) \<and>
          analyze_values rtl fields (make_Bindings_Environ env fields) = Inr (slots, env2) \<and>
          m = Module_Expr (Module_Phrase (mark_body body)) (dictionary fields) slots xelements n)) \<and>
   is_Lambda_Phrase (set_recursive p) = is_Lambda_Phrase p"
proof (intro conjI impI)
  show "single_lookup (Environ (Bindings_Environ b) ns ms par) t a =
     Inr (case map_of (dictionary b) a of
            None \<Rightarrow> None
          | Some slot \<Rightarrow>
              Some (if is_Lambda_Phrase (slot_phrases b ! slot)
                    then Nonlocal_Function_Ref (Identifier t a) slot
                    else Module_Ref (Identifier t a) slot),
          Environ (Bindings_Environ b) ns ms par)"
    by (simp add: is_recursive_function_def split: option.splits)
next
  assume "analyze_values rtl fields env2 = Inr (slots, env2')"
  from analyze_values_fold [OF this [unfolded analyze_values_def]]
  show "length slots = length (slot_phrases fields)"
    and "\<forall>i<length (slot_phrases fields). \<exists>ei ei' expr.
          env_rel env2 ei \<and> analyze_op rtl (slot_phrases fields ! i) ei = Inr (expr, ei') \<and>
          (if is_Lambda_Phrase (slot_phrases fields ! i)
           then \<exists>src body nl nargs nslots.
                  expr = Lambda_Expr src body nl nargs nslots \<and> slots ! i = Lambda body nargs nslots
           else slots ! i = Thunk expr)"
    by auto
next
  assume "analyze rtl (Module_Phrase body) env = Inr (m, env')"
  then obtain stmts fields elements slots env2 xelements env2' where
    st: "Statements body = Inr stmts" and
    mf: "module_fields stmts (Bindings [] 0 []) [] = Inr (fields, elements)" and
    av: "analyze_values rtl fields (make_Bindings_Environ env fields) = Inr (slots, env2)" and
    m: "m = Module_Expr (Module_Phrase (mark_body body)) (dictionary fields) slots xelements
              (frame_maxslots env2')"
    unfolding analyze_Module_Phrase by (auto split: sum.splits)
  from module_fields_Inr [OF mf] have
    "dictionary fields = zip (map def_name (stmt_defs stmts)) [0..<length (stmt_defs stmts)]"
    "slot_phrases fields = map (\<lambda>d. set_recursive (def_definiens d)) (stmt_defs stmts)"
    by simp_all
  with st mf av m show "\<exists>stmts fields elements slots env2 xelements n.
          Statements body = Inr stmts \<and>
          module_fields stmts (Bindings [] 0 []) [] = Inr (fields, elements) \<and>
          dictionary fields = zip (map def_name (stmt_defs stmts)) [0..<length (stmt_defs stmts)] \<and>
          slot_phrases fields = map (\<lambda>d. set_recursive (def_definiens d)) (stmt_defs stmts) \<and>
          analyze_values rtl fields (make_Bindings_Environ env fields) = Inr (slots, env2) \<and>
          m = Module_Expr (Module_Phrase (mark_body body)) (dictionary fields) slots xelements n"
    by blast
next
  show "is_Lambda_Phrase (set_recursive p) = is_Lambda_Phrase p" by simp
qed

text \<open>The module \<open>f(x) = x; a = 1\<close> and its bindings.\<close>

definition module_ex :: phrase where
  "module_ex = Module_Phrase (Semicolon_Phrase
     [(Definition_Phrase
         (Call_Phrase (Identifier (tk k_ident 0 1) ''f'')
            (Paren_Phrase (tk k_lparen 1 2) [(Identifier (tk k_ident 2 3) ''x'', Token_default)]
               (tk k_rparen 3 4)) Token_default)
         (tk k_equate 5 6) (Identifier (tk k_ident 7 8) ''x''), tk k_semicolon 8 9),
      (Definition_Phrase (Identifier (tk k_ident 10 11) ''a'') (tk k_equate 12 13)
         (Numeral (tk k_num 14 15) ''1''), Token_default)])"

definition module_ex_fields :: bindings where
  "module_ex_fields = Bindings [(''f'', 0), (''a'', 1)] 2
     [Lambda_Phrase
        (Paren_Phrase (tk k_lparen 1 2) [(Identifier (tk k_ident 2 3) ''x'', Token_default)]
           (tk k_rparen 3 4))
        (tk k_equate 5 6) (Identifier (tk k_ident 7 8) ''x'') True,
      Numeral (tk k_num 14 15) ''1'']"

text \<open>The claim at the module \<open>f(x) = x; a = 1\<close> among the builtins.\<close>

theorem module_bindings_witness:
  "single_lookup (make_Bindings_Environ builtin_env module_ex_fields) (tk k_ident 0 1) ''f'' =
     Inr (Some (Nonlocal_Function_Ref (Identifier (tk k_ident 0 1) ''f'') 0),
          make_Bindings_Environ builtin_env module_ex_fields) \<and>
   single_lookup (make_Bindings_Environ builtin_env module_ex_fields) (tk k_ident 0 1) ''a'' =
     Inr (Some (Module_Ref (Identifier (tk k_ident 0 1) ''a'') 1),
          make_Bindings_Environ builtin_env module_ex_fields) \<and>
   analyze_values False module_ex_fields (make_Bindings_Environ builtin_env module_ex_fields) =
     Inr ([Lambda (Arg_Ref (Identifier (tk k_ident 7 8) ''x'') 0) 1 1,
           Thunk (Constant (Numeral (tk k_num 14 15) ''1'') (Num_Value (Strtod ''1'')))],
          make_Bindings_Environ builtin_env module_ex_fields) \<and>
   analyze False module_ex builtin_env =
     Inr (Module_Expr module_ex [(''f'', 0), (''a'', 1)]
            [Lambda (Arg_Ref (Identifier (tk k_ident 7 8) ''x'') 0) 1 1,
             Thunk (Constant (Numeral (tk k_num 14 15) ''1'') (Num_Value (Strtod ''1'')))]
            [] 0, builtin_env)"
  using module_bindings [of module_ex_fields 0 0 "Some builtin_env" "tk k_ident 0 1" "''f''"
      False module_ex_fields "make_Bindings_Environ builtin_env module_ex_fields"
      "[Lambda (Arg_Ref (Identifier (tk k_ident 7 8) ''x'') 0) 1 1,
        Thunk (Constant (Numeral (tk k_num 14 15) ''1'') (Num_Value (Strtod ''1'')))]"
      "make_Bindings_Environ builtin_env module_ex_fields"]
  by (simp add: module_ex_def module_ex_fields_def builtin_env_def make_Bindings_Environ_def
      mapM_env_def make_Arg_Environ_def analyze_values_def is_recursive_function_def)

section \<open>Duplicate definitions\<close>

text \<open>
  The loops of phase 1 pass over a prefix of elements that are processed without error
  and without a repeated name, and then know the names the prefix defines.
\<close>

lemma foldM_env_append:
  "foldM_env f (xs @ ys) acc env =
     (case foldM_env f xs acc env of
        Inl e \<Rightarrow> Inl e
      | Inr (acc', env') \<Rightarrow> foldM_env f ys acc' env')"
  by (induction xs arbitrary: acc env) (auto split: sum.splits)

lemma stmt_defs_append: "stmt_defs (xs @ ys) = stmt_defs xs @ stmt_defs ys"
  by (induction xs) (auto split: sum.splits option.splits)

lemma module_fields_prefix:
  assumes "\<forall>st \<in> set pre. \<exists>od. analyze_def st = Inr od"
    and "distinct (map fst dict @ map def_name (stmt_defs pre))"
  shows "\<exists>fields els. module_fields (pre @ rest) (Bindings dict cur phrases) elements =
             module_fields rest fields els \<and>
           map fst (dictionary fields) = map fst dict @ map def_name (stmt_defs pre)"
  using assms
proof (induction pre arbitrary: dict cur phrases elements)
  case Nil
  show ?case
    by (intro exI [of _ "Bindings dict cur phrases"] exI [of _ elements]) simp
next
  case (Cons st pre)
  from Cons.prems(1) obtain od where od: "analyze_def st = Inr od" by auto
  show ?case
  proof (cases od)
    case None
    with od Cons.prems have "\<forall>st \<in> set pre. \<exists>od. analyze_def st = Inr od"
      and "distinct (map fst dict @ map def_name (stmt_defs pre))"
      by simp_all
    from Cons.IH [OF this, of cur phrases "elements @ [st]"] od None show ?thesis by simp
  next
    case (Some d)
    obtain t a ph where d: "d = Definition t a ph" by (cases d)
    from od Some d Cons.prems(2) have fresh: "map_of dict a = None"
      by (auto simp: map_of_eq_None_iff)
    from od Some d Cons.prems have "\<forall>st \<in> set pre. \<exists>od. analyze_def st = Inr od"
      and "distinct (map fst (dict @ [(a, cur)]) @ map def_name (stmt_defs pre))"
      by auto
    from Cons.IH [OF this, of "Suc cur" "phrases @ [set_recursive ph]" elements]
      od Some d fresh show ?thesis by simp
  qed
qed

lemma let_bindings_prefix:
  assumes "\<forall>(q, c) \<in> set pre. \<exists>d. analyze_def q = Inr (Some d)"
    and "distinct (map fst bs @ map def_name (stmt_defs (map fst pre)))"
  shows "\<exists>bs'. let_bindings (pre @ rest) bs slot = let_bindings rest bs' (slot + length pre) \<and>
           map fst bs' = map fst bs @ map def_name (stmt_defs (map fst pre))"
  using assms
proof (induction pre arbitrary: bs slot)
  case Nil
  show ?case by (intro exI [of _ bs]) simp
next
  case (Cons x pre)
  obtain q c where x: "x = (q, c)" by (cases x)
  with Cons.prems(1) obtain d0 where "analyze_def q = Inr (Some d0)" by auto
  then obtain t a ph where d: "analyze_def q = Inr (Some (Definition t a ph))"
    by (cases d0) simp
  from d x Cons.prems(2) have "a \<notin> fst ` set bs" by simp
  then have fresh: "map_of bs a = None"
    by (simp add: map_of_eq_None_iff)
  from Cons.prems(1) have p1: "\<forall>(q, c) \<in> set pre. \<exists>d. analyze_def q = Inr (Some d)"
    by simp
  from d x Cons.prems(2) have
    p2: "distinct (map fst (bs @ [(a, slot, ph)]) @ map def_name (stmt_defs (map fst pre)))"
    by simp
  from Cons.IH [OF p1 p2, of "Suc slot"] obtain bs' where
    "let_bindings (pre @ rest) (bs @ [(a, slot, ph)]) (Suc slot) =
       let_bindings rest bs' (Suc slot + length pre)"
    "map fst bs' = map fst (bs @ [(a, slot, ph)]) @ map def_name (stmt_defs (map fst pre))"
    by blast
  with d x fresh show ?case
    by (intro exI [of _ bs']) simp
qed

text \<open>
  The body of the loop of \<open>Record_Phrase::analyze\<close> (with \<open>analyze_definition\<close>
  inlined), as it stands in the equation of \<open>analyze\<close> for a \<open>Brace_Phrase\<close>.
\<close>

definition record_step ::
  "bool \<Rightarrow> phrase \<times> token \<Rightarrow> (atom \<times> meaning) list \<Rightarrow> environ \<Rightarrow>
     exception + ((atom \<times> meaning) list \<times> environ)" where
  "record_step rtl =
     (\<lambda>(p, c) fields e.
        case analyze_def p of
          Inl x \<Rightarrow> Inl x
        | Inr None \<Rightarrow> Inl (Exception (At_Phrase p) ''not a definition'')
        | Inr (Some (Definition t a definiens)) \<Rightarrow>
            (case map_of fields a of
               Some m \<Rightarrow> Inl (Exception (At_Phrase (Identifier t a)) (a @ '': multiply defined''))
             | None \<Rightarrow>
                 (case to_operation (analyze rtl definiens e) of
                    Inl x \<Rightarrow> Inl x
                  | Inr (m, e') \<Rightarrow> Inr (fields @ [(a, m)], e'))))"

lemma analyze_Brace_Phrase:
  "analyze rtl (Brace_Phrase lb args rb) env =
     (case foldM_env (record_step rtl) args [] env of
        Inl e \<Rightarrow> Inl e
      | Inr (fields, env') \<Rightarrow> Inr (Record_Expr (Brace_Phrase lb args rb) fields, env'))"
  unfolding record_step_def by simp

lemma record_step_Inr:
  assumes "record_step rtl (p, c) fields e = Inr (fields', e')"
  shows "\<exists>t a d m. analyze_def p = Inr (Some (Definition t a d)) \<and> fields' = fields @ [(a, m)]"
proof (cases "analyze_def p")
  case (Inl x)
  with assms show ?thesis by (simp add: record_step_def)
next
  case (Inr od)
  show ?thesis
  proof (cases od)
    case None
    with Inr assms show ?thesis by (simp add: record_step_def)
  next
    case (Some d0)
    obtain t a d where d0: "d0 = Definition t a d" by (cases d0)
    with Inr Some assms show ?thesis
      by (auto simp: record_step_def split: option.splits sum.splits prod.splits)
  qed
qed

lemma record_fields_names:
  assumes "foldM_env (record_step rtl) args acc env = Inr (fields, env')"
  shows "map fst fields = map fst acc @ map def_name (stmt_defs (map fst args))"
  using assms
proof (induction args arbitrary: acc env)
  case Nil
  then show ?case by simp
next
  case (Cons x args)
  obtain p c where x: "x = (p, c)" by (cases x)
  from Cons.prems x obtain acc1 e1 where
    step: "record_step rtl (p, c) acc env = Inr (acc1, e1)" and
    rest: "foldM_env (record_step rtl) args acc1 e1 = Inr (fields, env')"
    by (auto split: sum.splits)
  from record_step_Inr [OF step] obtain t a d m where
    "analyze_def p = Inr (Some (Definition t a d))" "acc1 = acc @ [(a, m)]" by blast
  with Cons.IH [OF rest] x show ?case by simp
qed

text \<open>The record \<open>{a=foo, a=2}\<close>.\<close>

definition record_dup_ex :: phrase where
  "record_dup_ex = Brace_Phrase (tk k_lbrace 0 1)
     [(Definition_Phrase (Identifier (tk k_ident 1 2) ''a'') (tk k_equate 2 3)
         (Identifier (tk k_ident 3 6) ''foo''), tk k_comma 6 7),
      (Definition_Phrase (Identifier (tk k_ident 8 9) ''a'') (tk k_equate 9 10)
         (Numeral (tk k_num 10 11) ''2''), Token_default)]
     (tk k_rbrace 11 12)"

text \<open>
  Against C5 as stated ("for every ... record ... containing two definitions with the
  same name, analysis raises multiply defined"): both elements of \<open>{a=foo, a=2}\<close> are
  definitions of \<open>a\<close>, and the analysis raises "foo: not defined", since a record
  analyses the definiens of each field before it reads the next element.
\<close>

theorem record_duplicate_counterexample:
  "analyze_def (Definition_Phrase (Identifier (tk k_ident 1 2) ''a'') (tk k_equate 2 3)
       (Identifier (tk k_ident 3 6) ''foo'')) =
     Inr (Some (Definition (tk k_ident 1 2) ''a'' (Identifier (tk k_ident 3 6) ''foo''))) \<and>
   analyze_def (Definition_Phrase (Identifier (tk k_ident 8 9) ''a'') (tk k_equate 9 10)
       (Numeral (tk k_num 10 11) ''2'')) =
     Inr (Some (Definition (tk k_ident 8 9) ''a'' (Numeral (tk k_num 10 11) ''2''))) \<and>
   analyze False record_dup_ex builtin_env =
     Inl (Exception (At_Phrase (Identifier (tk k_ident 3 6) ''foo'')) ''foo: not defined'') \<and>
   analyze False record_dup_ex builtin_env \<noteq>
     Inl (Exception (At_Phrase (Identifier (tk k_ident 8 9) ''a'')) ''a: multiply defined'')"
  by (simp add: record_dup_ex_def builtin_env_def builtin_namespace_def)

text \<open>
  C5, amended. Let \<open>p\<close> be a definition of the name \<open>a\<close>. In a module whose statements
  before \<open>p\<close> pass \<open>analyze_def\<close> without error and define no name twice, in a record
  whose elements before \<open>p\<close> are by themselves analysed without error, and in a \<open>let\<close>
  whose arguments before \<open>p\<close> are definitions with no name repeated: if one of the
  elements before \<open>p\<close> defines \<open>a\<close>, the analysis raises "a: multiply defined" at the
  name of \<open>p\<close>, the later of the two definitions, whatever follows \<open>p\<close>.
\<close>

theorem multiply_defined:
  assumes "analyze_def p = Inr (Some (Definition t a d))"
  shows
  "(Statements body = Inr (pre @ p # post) \<and>
    (\<forall>st \<in> set pre. \<exists>od. analyze_def st = Inr od) \<and>
    distinct (map def_name (stmt_defs pre)) \<and> a \<in> set (map def_name (stmt_defs pre)) \<longrightarrow>
      analyze rtl (Module_Phrase body) env =
        Inl (Exception (At_Phrase (Identifier t a)) (a @ '': multiply defined''))) \<and>
   (analyze rtl (Brace_Phrase lb' rpre rb') env = Inr (m1, env1) \<and>
    a \<in> set (map def_name (stmt_defs (map fst rpre))) \<longrightarrow>
      analyze rtl (Brace_Phrase lb (rpre @ (p, c) # rpost) rb) env =
        Inl (Exception (At_Phrase (Identifier t a)) (a @ '': multiply defined''))) \<and>
   ((\<forall>(q, c') \<in> set lpre. \<exists>d'. analyze_def q = Inr (Some d')) \<and>
    distinct (map def_name (stmt_defs (map fst lpre))) \<and>
    a \<in> set (map def_name (stmt_defs (map fst lpre))) \<longrightarrow>
      analyze rtl (Let_Phrase lt lp (lpre @ (p, c) # lpost) rp lbody) env =
        Inl (Exception (At_Phrase (Identifier t a)) (a @ '': multiply defined'')))"
proof (intro conjI impI; (elim conjE)?)
  assume st: "Statements body = Inr (pre @ p # post)"
    and ok: "\<forall>st \<in> set pre. \<exists>od. analyze_def st = Inr od"
    and dist: "distinct (map def_name (stmt_defs pre))"
    and a: "a \<in> set (map def_name (stmt_defs pre))"
  from dist have "distinct (map fst ([] :: (atom \<times> nat) list) @ map def_name (stmt_defs pre))"
    by simp
  from module_fields_prefix [OF ok this, of "p # post" 0 "[]" "[]"] obtain fields els where
    eq: "module_fields (pre @ p # post) (Bindings [] 0 []) [] = module_fields (p # post) fields els"
    and keys: "map fst (dictionary fields) = map def_name (stmt_defs pre)"
    by auto
  from keys a have "a \<in> fst ` set (dictionary fields)"
    by (metis list.set_map)
  then obtain slot where "map_of (dictionary fields) a = Some slot"
    by (metis map_of_eq_None_iff not_None_eq)
  with assms have "module_fields (p # post) fields els =
      Inl (Exception (At_Phrase (Identifier t a)) (a @ '': multiply defined''))"
    by (cases fields) simp
  with eq st show "analyze rtl (Module_Phrase body) env =
      Inl (Exception (At_Phrase (Identifier t a)) (a @ '': multiply defined''))"
    by (simp del: analyze.simps add: analyze_Module_Phrase)
next
  assume pre: "analyze rtl (Brace_Phrase lb' rpre rb') env = Inr (m1, env1)"
    and a: "a \<in> set (map def_name (stmt_defs (map fst rpre)))"
  from pre obtain fields where
    f: "foldM_env (record_step rtl) rpre [] env = Inr (fields, env1)"
    by (auto simp del: analyze.simps simp add: analyze_Brace_Phrase split: sum.splits)
  from record_fields_names [OF f] a have "a \<in> fst ` set fields"
    by (metis append_Nil list.map(1) list.set_map)
  then obtain m where "map_of fields a = Some m"
    by (metis map_of_eq_None_iff not_None_eq)
  with assms have "record_step rtl (p, c) fields env1 =
      Inl (Exception (At_Phrase (Identifier t a)) (a @ '': multiply defined''))"
    by (simp add: record_step_def)
  with f show "analyze rtl (Brace_Phrase lb (rpre @ (p, c) # rpost) rb) env =
      Inl (Exception (At_Phrase (Identifier t a)) (a @ '': multiply defined''))"
    by (simp del: analyze.simps add: analyze_Brace_Phrase foldM_env_append)
next
  assume ok: "\<forall>(q, c') \<in> set lpre. \<exists>d'. analyze_def q = Inr (Some d')"
    and dist: "distinct (map def_name (stmt_defs (map fst lpre)))"
    and a: "a \<in> set (map def_name (stmt_defs (map fst lpre)))"
  from dist have
    "distinct (map fst ([] :: (atom \<times> nat \<times> phrase) list) @ map def_name (stmt_defs (map fst lpre)))"
    by simp
  from let_bindings_prefix [OF ok this, of "(p, c) # lpost" "frame_nslots env"] obtain bs where
    eq: "let_bindings (lpre @ (p, c) # lpost) [] (frame_nslots env) =
           let_bindings ((p, c) # lpost) bs (frame_nslots env + length lpre)"
    and keys: "map fst bs = map def_name (stmt_defs (map fst lpre))"
    by auto
  from keys a have "a \<in> fst ` set bs"
    by (metis list.set_map)
  then obtain x where "map_of bs a = Some x"
    by (metis map_of_eq_None_iff not_None_eq)
  with assms have "let_bindings ((p, c) # lpost) bs (frame_nslots env + length lpre) =
      Inl (Exception (At_Phrase (Identifier t a)) (a @ '': multiply defined''))"
    by simp
  with eq show "analyze rtl (Let_Phrase lt lp (lpre @ (p, c) # lpost) rp lbody) env =
      Inl (Exception (At_Phrase (Identifier t a)) (a @ '': multiply defined''))"
    by simp
qed

text \<open>The claim at the module \<open>a=1; a=2\<close>, the record \<open>{a=1, a=2}\<close> and \<open>let(a=1, a=2) a\<close>.\<close>

definition def_a1 :: phrase where
  "def_a1 = Definition_Phrase (Identifier (tk k_ident 1 2) ''a'') (tk k_equate 2 3)
     (Numeral (tk k_num 3 4) ''1'')"

definition def_a2 :: phrase where
  "def_a2 = Definition_Phrase (Identifier (tk k_ident 5 6) ''a'') (tk k_equate 6 7)
     (Numeral (tk k_num 7 8) ''2'')"

theorem multiply_defined_witness:
  "analyze_def def_a2 = Inr (Some (Definition (tk k_ident 5 6) ''a'' (Numeral (tk k_num 7 8) ''2''))) \<and>
   analyze False (Module_Phrase (Semicolon_Phrase [(def_a1, tk k_semicolon 4 5), (def_a2, Token_default)]))
       builtin_env =
     Inl (Exception (At_Phrase (Identifier (tk k_ident 5 6) ''a'')) ''a: multiply defined'') \<and>
   analyze False (Brace_Phrase (tk k_lbrace 0 1) [(def_a1, tk k_comma 4 5), (def_a2, Token_default)]
       (tk k_rbrace 8 9)) builtin_env =
     Inl (Exception (At_Phrase (Identifier (tk k_ident 5 6) ''a'')) ''a: multiply defined'') \<and>
   analyze False (Let_Phrase (tk k_let 0 0) (tk k_lparen 0 1)
       [(def_a1, tk k_comma 4 5), (def_a2, Token_default)] (tk k_rparen 8 9)
       (Identifier (tk k_ident 10 11) ''a'')) builtin_env =
     Inl (Exception (At_Phrase (Identifier (tk k_ident 5 6) ''a'')) ''a: multiply defined'')"
proof -
  have d: "analyze_def def_a2 =
      Inr (Some (Definition (tk k_ident 5 6) ''a'' (Numeral (tk k_num 7 8) ''2'')))"
    by (simp add: def_a2_def)
  have r: "analyze False (Brace_Phrase (tk k_lbrace 0 1) [(def_a1, tk k_comma 4 5)] (tk k_rbrace 8 9))
        builtin_env =
      Inr (Record_Expr (Brace_Phrase (tk k_lbrace 0 1) [(def_a1, tk k_comma 4 5)] (tk k_rbrace 8 9))
             [(''a'', Constant (Numeral (tk k_num 3 4) ''1'') (Num_Value (Strtod ''1'')))], builtin_env)"
    by (simp add: def_a1_def)
  show ?thesis
    using d multiply_defined [OF d,
        of "Semicolon_Phrase [(def_a1, tk k_semicolon 4 5), (def_a2, Token_default)]"
        "[def_a1]" "[]" False builtin_env
        "tk k_lbrace 0 1" "[(def_a1, tk k_comma 4 5)]" "tk k_rbrace 8 9"
        "Record_Expr (Brace_Phrase (tk k_lbrace 0 1) [(def_a1, tk k_comma 4 5)] (tk k_rbrace 8 9))
             [(''a'', Constant (Numeral (tk k_num 3 4) ''1'') (Num_Value (Strtod ''1'')))]"
        builtin_env "tk k_lbrace 0 1" Token_default "[]" "tk k_rbrace 8 9"
        "[(def_a1, tk k_comma 4 5)]" "tk k_let 0 0" "tk k_lparen 0 1" "[]" "tk k_rparen 8 9"
        "Identifier (tk k_ident 10 11) ''a''"] r
    by (simp add: def_a1_def del: analyze.simps)
qed

section \<open>Frame counters\<close>

text \<open>The lambda \<open>(a,b)->a\<close>.\<close>

definition lam_ab :: phrase where
  "lam_ab = Lambda_Phrase
     (Paren_Phrase (tk k_lparen 0 1)
        [(Identifier (tk k_ident 1 2) ''a'', tk k_comma 2 3),
         (Identifier (tk k_ident 3 4) ''b'', Token_default)]
        (tk k_rparen 4 5))
     (tk k_right_arrow 5 7) (Identifier (tk k_ident 7 8) ''a'') False"

text \<open>
  Against C4 as stated ("every child Environ ... initializes frame_nslots and
  frame_maxslots from its parent's current counters", "the parent's frame_maxslots is
  greater than or equal to the maximum ... of each of its child scopes"): among the
  builtins both counters are 0; the \<open>Arg_Environ\<close> of \<open>(a,b)->a\<close> starts with both
  counters at 2, the number of parameters; and after the analysis the child's maximum,
  2, is the \<open>nslots\<close> of the \<open>Lambda_Expr\<close>, while the parent is returned as it was,
  with \<open>frame_maxslots = 0\<close>.
\<close>

theorem arg_environ_counters_counterexample:
  "frame_nslots builtin_env = 0 \<and> frame_maxslots builtin_env = 0 \<and>
   frame_nslots (make_Arg_Environ builtin_env [(''a'', 0), (''b'', 1)] False) = 2 \<and>
   frame_maxslots (make_Arg_Environ builtin_env [(''a'', 0), (''b'', 1)] False) = 2 \<and>
   analyze False lam_ab builtin_env =
     Inr (Lambda_Expr lam_ab (Arg_Ref (Identifier (tk k_ident 7 8) ''a'') 0) [] 2 2, builtin_env)"
  by (simp add: lam_ab_def builtin_env_def make_Arg_Environ_def)

lemma env_rel_counters:
  "env_rel env env' \<Longrightarrow> frame_nslots env' = frame_nslots env \<and> frame_maxslots env \<le> frame_maxslots env'"
  by (simp add: env_rel_def)

lemma chain_rel_counters:
  "chain_rel env env' \<Longrightarrow> frame_nslots env' = frame_nslots env \<and> frame_maxslots env' = frame_maxslots env"
  by (cases env; cases env') (simp add: chain_rel_Environ)

lemma analyze_Lambda_Phrase_Inr:
  assumes "analyze rtl (Lambda_Phrase left tok right recursive) env = Inr (m, env')"
  shows "\<exists>params expr env2.
      lambda_params left = Inr params \<and>
      analyze_op rtl right (make_Arg_Environ env params recursive) = Inr (expr, env2) \<and>
      env_rel (make_Arg_Environ env params recursive) env2 \<and>
      m = Lambda_Expr (Lambda_Phrase left tok right recursive) expr (nonlocal_exprs env2)
            (length params) (frame_maxslots env2) \<and>
      env' = parent_of env env2 \<and> chain_rel env env'"
proof -
  from assms obtain params expr env2 where
    params: "lambda_params left = Inr params" and
    body: "to_operation (analyze rtl right (make_Arg_Environ env params recursive)) = Inr (expr, env2)" and
    m: "m = Lambda_Expr (Lambda_Phrase left tok right recursive) expr (nonlocal_exprs env2)
            (length params) (frame_maxslots env2)" and
    env': "env' = parent_of env env2"
    by (auto split: sum.splits)
  have rel: "env_rel (make_Arg_Environ env params recursive) env2"
    by (rule analyze_env_rel [OF to_operation_Inr [OF body]])
  then have "chain_rel env (parent_of env env2)"
    unfolding make_Arg_Environ_def by (rule child_env_rel)
  with params body m env' rel show ?thesis
    by (auto simp: analyze_op_def)
qed

lemma let_values_append:
  "let_values rtl first (xs @ ys) vs e =
     (case let_values rtl first xs vs e of
        Inl x \<Rightarrow> Inl x
      | Inr (vs1, e1) \<Rightarrow> let_values rtl first ys vs1 e1)"
  unfolding let_values_def by (rule foldM_env_append)

lemma analyze_values_rel: "analyze_values rtl fields e = Inr (slots, e') \<Longrightarrow> env_rel e e'"
  unfolding analyze_values_def
  by (erule foldM_env_rel)
    (auto dest!: to_operation_Inr intro: analyze_env_rel elim: env_rel_trans
      split: sum.splits if_splits)

lemma analyze_op_rel: "analyze_op rtl ph e = Inr (m, e') \<Longrightarrow> env_rel e e'"
  by (auto simp: analyze_op_def dest: to_operation_Inr analyze_env_rel)

lemma elements_rel:
  "mapM_env (\<lambda>ph e. analyze_op rtl ph e) elements e = Inr (xs, e') \<Longrightarrow> env_rel e e'"
  by (erule mapM_env_rel) (auto intro: analyze_op_rel elim: env_rel_trans)

lemma analyze_Module_Phrase_Inr:
  assumes "analyze rtl (Module_Phrase body) env = Inr (m, env')"
  shows "\<exists>stmts fields elements slots env2 xelements child.
      Statements body = Inr stmts \<and>
      module_fields stmts (Bindings [] 0 []) [] = Inr (fields, elements) \<and>
      analyze_values rtl fields (make_Bindings_Environ env fields) = Inr (slots, env2) \<and>
      mapM_env (\<lambda>ph e. analyze_op rtl ph e) elements env2 = Inr (xelements, child) \<and>
      m = Module_Expr (Module_Phrase (mark_body body)) (dictionary fields) slots xelements
            (frame_maxslots child) \<and>
      env' = parent_of env child \<and> chain_rel env env'"
proof -
  from assms obtain stmts fields elements slots env2 xelements child where
    st: "Statements body = Inr stmts" and
    mf: "module_fields stmts (Bindings [] 0 []) [] = Inr (fields, elements)" and
    av: "analyze_values rtl fields (make_Bindings_Environ env fields) = Inr (slots, env2)" and
    el: "mapM_env (\<lambda>ph e. analyze_op rtl ph e) elements env2 = Inr (xelements, child)" and
    m: "m = Module_Expr (Module_Phrase (mark_body body)) (dictionary fields) slots xelements
              (frame_maxslots child)" and
    env': "env' = parent_of env child"
    unfolding analyze_Module_Phrase analyze_op_def by (auto split: sum.splits)
  from analyze_values_rel [OF av] elements_rel [OF el]
  have "env_rel (make_Bindings_Environ env fields) child" by (rule env_rel_trans)
  then have "chain_rel env (parent_of env child)"
    unfolding make_Bindings_Environ_def by (rule child_env_rel)
  with st mf av el m env' show ?thesis by blast
qed

text \<open>The phrase \<open>for (i = [1]) i\<close>.\<close>

definition for_ex :: phrase where
  "for_ex = For_Phrase (tk k_for 0 3) (tk k_lparen 4 5)
     [(Definition_Phrase (Identifier (tk k_ident 5 6) ''i'') (tk k_equate 7 8)
         (Bracket_Phrase (tk k_lbracket 9 10) [(Numeral (tk k_num 10 11) ''1'', Token_default)]
            (tk k_rbracket 11 12)), Token_default)]
     (tk k_rparen 12 13) (Identifier (tk k_ident 14 15) ''i'')"

lemma analyze_for_ex:
  "analyze False for_ex builtin_env =
     Inr (For_Expr for_ex 0
            (List_Expr (Bracket_Phrase (tk k_lbracket 9 10) [(Numeral (tk k_num 10 11) ''1'', Token_default)]
               (tk k_rbracket 11 12))
               [Constant (Numeral (tk k_num 10 11) ''1'') (Num_Value (Strtod ''1''))])
            (Let_Ref (Identifier (tk k_ident 14 15) ''i'') 0),
          set_frame_maxslots builtin_env 1)"
  by (simp add: for_ex_def builtin_env_def for_definition_def make_For_Environ_def mapM_env_def)

lemma analyze_module_ex:
  "analyze False module_ex builtin_env =
     Inr (Module_Expr module_ex [(''f'', 0), (''a'', 1)]
            [Lambda (Arg_Ref (Identifier (tk k_ident 7 8) ''x'') 0) 1 1,
             Thunk (Constant (Numeral (tk k_num 14 15) ''1'') (Num_Value (Strtod ''1'')))]
            [] 0, builtin_env)"
  by (simp add: module_ex_def builtin_env_def make_Bindings_Environ_def
      mapM_env_def make_Arg_Environ_def is_recursive_function_def)

text \<open>
  C4, amended. A \<open>Let_Environ\<close> and a \<open>For_Environ\<close> initialize their counters from the
  parent's current ones: \<open>frame_nslots\<close> is the parent's plus the number of slots they
  bind, \<open>frame_maxslots\<close> the maximum of the parent's and that; a \<open>Bindings::Environ\<close>
  copies both. An \<open>Arg_Environ\<close> starts both counters at the number of parameters.
  Every analysis leaves an environment related to the one it was given by \<open>env_rel\<close>:
  \<open>frame_nslots\<close> is unchanged and \<open>frame_maxslots\<close> has not shrunk. After a \<open>let\<close> is
  analysed, the parent's \<open>frame_maxslots\<close> is that of the \<open>Let_Environ\<close> as the analysis
  of the body has left it (\<open>child\<close>), which is at least what it was after the loop
  over the bindings and after every part of that loop; after a \<open>for\<close>, it is that of
  the \<open>For_Environ\<close> as the analysis of the body has left it, which is at least what
  it was when created. After a lambda or a module is analysed the parent's counters
  are what they were, and the final \<open>frame_maxslots\<close> of the \<open>Arg_Environ\<close>, as the
  analysis of the body has left it, is the \<open>nslots\<close> of the \<open>Lambda_Expr\<close>; that of the
  \<open>Bindings::Environ\<close>, as the analyses of the slots and then of the elements have
  left it, is the \<open>frame_nslots\<close> of the \<open>Module_Expr\<close>.
\<close>

theorem frame_counters:
  "frame_nslots (make_Let_Environ p n) = frame_nslots p + length n \<and>
   frame_maxslots (make_Let_Environ p n) = max (frame_maxslots p) (frame_nslots p + length n) \<and>
   frame_nslots (make_For_Environ p name slot) = frame_nslots p + 1 \<and>
   frame_maxslots (make_For_Environ p name slot) = max (frame_maxslots p) (frame_nslots p + 1) \<and>
   frame_nslots (make_Bindings_Environ p flds) = frame_nslots p \<and>
   frame_maxslots (make_Bindings_Environ p flds) = frame_maxslots p \<and>
   frame_nslots (make_Arg_Environ p names r) = length names \<and>
   frame_maxslots (make_Arg_Environ p names r) = length names \<and>
   (env_rel e1 e2 \<longrightarrow> frame_nslots e2 = frame_nslots e1 \<and> frame_maxslots e1 \<le> frame_maxslots e2) \<and>
   (analyze rtl ph env = Inr (m, env') \<longrightarrow> env_rel env env') \<and>
   (analyze rtl (Let_Phrase lt lp args rp body) env = Inr (m, env') \<longrightarrow>
      (\<exists>bindings values env2 b child.
         let_bindings args [] (frame_nslots env) = Inr bindings \<and>
         let_values rtl (frame_nslots env) (sort_key fst bindings)
           (replicate (length args) Null_Value) (make_Let_Environ env bindings) = Inr (values, env2) \<and>
         analyze_op rtl body env2 = Inr (b, child) \<and>
         scope child = Let_Environ bindings \<and>
         frame_maxslots env' = frame_maxslots child \<and>
         frame_maxslots env2 \<le> frame_maxslots child \<and>
         (\<forall>pre post vs ei.
            sort_key fst bindings = pre @ post \<and>
            let_values rtl (frame_nslots env) pre (replicate (length args) Null_Value)
              (make_Let_Environ env bindings) = Inr (vs, ei) \<longrightarrow>
            frame_maxslots ei \<le> frame_maxslots env2))) \<and>
   (analyze rtl (For_Phrase ft lp args rp body) env = Inr (m, env') \<longrightarrow>
      (\<exists>x right list env1 b child.
         for_definition lp args rp = Inr (x, right) \<and>
         analyze_op rtl right env = Inr (list, env1) \<and>
         analyze_op rtl body (make_For_Environ env1 x (frame_nslots env1)) = Inr (b, child) \<and>
         scope child = For_Environ x (frame_nslots env1) \<and>
         frame_maxslots env' = frame_maxslots child \<and>
         frame_maxslots (make_For_Environ env1 x (frame_nslots env1)) \<le> frame_maxslots child)) \<and>
   (analyze rtl (Lambda_Phrase left tok right recursive) env = Inr (m, env') \<longrightarrow>
      frame_nslots env' = frame_nslots env \<and> frame_maxslots env' = frame_maxslots env \<and>
      (\<exists>params expr child.
         lambda_params left = Inr params \<and>
         analyze_op rtl right (make_Arg_Environ env params recursive) = Inr (expr, child) \<and>
         m = Lambda_Expr (Lambda_Phrase left tok right recursive) expr (nonlocal_exprs child)
               (length params) (frame_maxslots child))) \<and>
   (analyze rtl (Module_Phrase mbody) env = Inr (m, env') \<longrightarrow>
      frame_nslots env' = frame_nslots env \<and> frame_maxslots env' = frame_maxslots env \<and>
      (\<exists>stmts fields elements slots env2 xelements child.
         Statements mbody = Inr stmts \<and>
         module_fields stmts (Bindings [] 0 []) [] = Inr (fields, elements) \<and>
         analyze_values rtl fields (make_Bindings_Environ env fields) = Inr (slots, env2) \<and>
         mapM_env (\<lambda>ph e. analyze_op rtl ph e) elements env2 = Inr (xelements, child) \<and>
         frame_maxslots (make_Bindings_Environ env fields) \<le> frame_maxslots env2 \<and>
         frame_maxslots env2 \<le> frame_maxslots child \<and>
         m = Module_Expr (Module_Phrase (mark_body mbody)) (dictionary fields) slots xelements
               (frame_maxslots child)))"
proof (intro conjI impI)
  assume "analyze rtl (Let_Phrase lt lp args rp body) env = Inr (m, env')"
  from let_analysis_run [OF this] obtain bindings "values" env2 b child where
    lb: "let_bindings args [] (frame_nslots env) = Inr bindings" and
    vs: "let_values rtl (frame_nslots env) (sort_key fst bindings)
           (replicate (length args) Null_Value) (make_Let_Environ env bindings) = Inr (values, env2)" and
    bd: "analyze_op rtl body env2 = Inr (b, child)" and
    sc: "scope child = Let_Environ bindings" and
    ms: "frame_maxslots env' = frame_maxslots child"
    by blast
  have le: "frame_maxslots env2 \<le> frame_maxslots child"
    using analyze_op_rel [OF bd] by (simp add: env_rel_counters)
  have pre: "frame_maxslots ei \<le> frame_maxslots env2"
    if "sort_key fst bindings = pre @ post \<and>
        let_values rtl (frame_nslots env) pre (replicate (length args) Null_Value)
          (make_Let_Environ env bindings) = Inr (vs, ei)" for pre post vs ei
  proof -
    from that vs have "let_values rtl (frame_nslots env) post vs ei = Inr (values, env2)"
      by (simp add: let_values_append)
    from let_values_rel [OF this] show ?thesis by (simp add: env_rel_counters)
  qed
  from lb vs bd sc ms le pre
  show "\<exists>bindings values env2 b child.
         let_bindings args [] (frame_nslots env) = Inr bindings \<and>
         let_values rtl (frame_nslots env) (sort_key fst bindings)
           (replicate (length args) Null_Value) (make_Let_Environ env bindings) = Inr (values, env2) \<and>
         analyze_op rtl body env2 = Inr (b, child) \<and>
         scope child = Let_Environ bindings \<and>
         frame_maxslots env' = frame_maxslots child \<and>
         frame_maxslots env2 \<le> frame_maxslots child \<and>
         (\<forall>pre post vs ei.
            sort_key fst bindings = pre @ post \<and>
            let_values rtl (frame_nslots env) pre (replicate (length args) Null_Value)
              (make_Let_Environ env bindings) = Inr (vs, ei) \<longrightarrow>
            frame_maxslots ei \<le> frame_maxslots env2)"
    by blast
next
  assume "analyze rtl (For_Phrase ft lp args rp body) env = Inr (m, env')"
  then obtain x right list env1 b child where
    fd: "for_definition lp args rp = Inr (x, right)" and
    ls: "analyze_op rtl right env = Inr (list, env1)" and
    bd: "analyze_op rtl body (make_For_Environ env1 x (frame_nslots env1)) = Inr (b, child)" and
    env': "env' = set_frame_maxslots (parent_of env1 child) (frame_maxslots child)"
    by (auto simp: analyze_op_def split: sum.splits)
  from analyze_op_rel [OF bd] have
    rel: "env_rel (make_For_Environ env1 x (frame_nslots env1)) child" .
  then have "scope child = For_Environ x (frame_nslots env1)"
    by (cases child) (simp add: make_For_Environ_def env_rel_Environ)
  moreover from env' have "frame_maxslots env' = frame_maxslots child"
    by (simp add: set_frame_maxslots_counters)
  moreover from rel have
    "frame_maxslots (make_For_Environ env1 x (frame_nslots env1)) \<le> frame_maxslots child"
    by (simp add: env_rel_counters)
  ultimately show "\<exists>x right list env1 b child.
         for_definition lp args rp = Inr (x, right) \<and>
         analyze_op rtl right env = Inr (list, env1) \<and>
         analyze_op rtl body (make_For_Environ env1 x (frame_nslots env1)) = Inr (b, child) \<and>
         scope child = For_Environ x (frame_nslots env1) \<and>
         frame_maxslots env' = frame_maxslots child \<and>
         frame_maxslots (make_For_Environ env1 x (frame_nslots env1)) \<le> frame_maxslots child"
    using fd ls bd by blast
next
  assume lam: "analyze rtl (Lambda_Phrase left tok right recursive) env = Inr (m, env')"
  from analyze_Lambda_Phrase_Inr [OF lam] obtain params expr env2 where
    p: "lambda_params left = Inr params" and
    b: "analyze_op rtl right (make_Arg_Environ env params recursive) = Inr (expr, env2)" and
    m: "m = Lambda_Expr (Lambda_Phrase left tok right recursive) expr (nonlocal_exprs env2)
            (length params) (frame_maxslots env2)" and
    c: "chain_rel env env'"
    by blast
  from c show "frame_nslots env' = frame_nslots env" and "frame_maxslots env' = frame_maxslots env"
    by (simp_all add: chain_rel_counters)
  from p b m show "\<exists>params expr child.
         lambda_params left = Inr params \<and>
         analyze_op rtl right (make_Arg_Environ env params recursive) = Inr (expr, child) \<and>
         m = Lambda_Expr (Lambda_Phrase left tok right recursive) expr (nonlocal_exprs child)
               (length params) (frame_maxslots child)"
    by blast
next
  assume md: "analyze rtl (Module_Phrase mbody) env = Inr (m, env')"
  from analyze_Module_Phrase_Inr [OF md] obtain stmts fields elements slots env2 xelements child where
    st: "Statements mbody = Inr stmts" and
    mf: "module_fields stmts (Bindings [] 0 []) [] = Inr (fields, elements)" and
    av: "analyze_values rtl fields (make_Bindings_Environ env fields) = Inr (slots, env2)" and
    el: "mapM_env (\<lambda>ph e. analyze_op rtl ph e) elements env2 = Inr (xelements, child)" and
    m: "m = Module_Expr (Module_Phrase (mark_body mbody)) (dictionary fields) slots xelements
              (frame_maxslots child)" and
    c: "chain_rel env env'"
    by blast
  from c show "frame_nslots env' = frame_nslots env" and "frame_maxslots env' = frame_maxslots env"
    by (simp_all add: chain_rel_counters)
  from analyze_values_rel [OF av] have
    "frame_maxslots (make_Bindings_Environ env fields) \<le> frame_maxslots env2"
    by (simp add: env_rel_counters)
  moreover from elements_rel [OF el] have "frame_maxslots env2 \<le> frame_maxslots child"
    by (simp add: env_rel_counters)
  ultimately show "\<exists>stmts fields elements slots env2 xelements child.
         Statements mbody = Inr stmts \<and>
         module_fields stmts (Bindings [] 0 []) [] = Inr (fields, elements) \<and>
         analyze_values rtl fields (make_Bindings_Environ env fields) = Inr (slots, env2) \<and>
         mapM_env (\<lambda>ph e. analyze_op rtl ph e) elements env2 = Inr (xelements, child) \<and>
         frame_maxslots (make_Bindings_Environ env fields) \<le> frame_maxslots env2 \<and>
         frame_maxslots env2 \<le> frame_maxslots child \<and>
         m = Module_Expr (Module_Phrase (mark_body mbody)) (dictionary fields) slots xelements
               (frame_maxslots child)"
    using st mf av el m by blast
qed (simp_all add: make_Let_Environ_def make_For_Environ_def make_Arg_Environ_def
    make_Bindings_Environ_def env_rel_counters analyze_env_rel del: analyze.simps)

text \<open>
  The claim at \<open>let(a=1, b=a+1) b\<close>, \<open>for (i = [1]) i\<close>, \<open>(a,b)->a\<close> and the module
  \<open>f(x) = x; a = 1\<close> among the builtins.
\<close>

theorem frame_counters_witness:
  "env_rel builtin_env (set_frame_maxslots builtin_env 2) \<and>
   (\<exists>bindings values env2 b child.
      let_values False (frame_nslots builtin_env) (sort_key fst bindings)
        (replicate 2 Null_Value) (make_Let_Environ builtin_env bindings) = Inr (values, env2) \<and>
      analyze_op False (Identifier (tk k_ident 16 17) ''b'') env2 = Inr (b, child) \<and>
      scope child = Let_Environ bindings \<and>
      frame_maxslots (set_frame_maxslots builtin_env 2) = frame_maxslots child \<and>
      frame_maxslots env2 \<le> frame_maxslots child \<and>
      frame_maxslots (make_Let_Environ builtin_env bindings) \<le> frame_maxslots env2) \<and>
   (\<exists>x right list env1 b child.
      analyze_op False right builtin_env = Inr (list, env1) \<and>
      analyze_op False (Identifier (tk k_ident 14 15) ''i'')
        (make_For_Environ env1 x (frame_nslots env1)) = Inr (b, child) \<and>
      scope child = For_Environ x (frame_nslots env1) \<and>
      frame_maxslots (set_frame_maxslots builtin_env 1) = frame_maxslots child \<and>
      frame_maxslots (make_For_Environ env1 x (frame_nslots env1)) \<le> frame_maxslots child) \<and>
   frame_maxslots builtin_env = 0 \<and>
   (\<exists>expr child.
      analyze_op False (Identifier (tk k_ident 7 8) ''a'')
        (make_Arg_Environ builtin_env [(''a'', 0), (''b'', 1)] False) = Inr (expr, child) \<and>
      Lambda_Expr lam_ab (Arg_Ref (Identifier (tk k_ident 7 8) ''a'') 0) [] 2 2 =
        Lambda_Expr lam_ab expr (nonlocal_exprs child) 2 (frame_maxslots child)) \<and>
   (\<exists>fields elements slots env2 xelements child.
      analyze_values False fields (make_Bindings_Environ builtin_env fields) = Inr (slots, env2) \<and>
      mapM_env (\<lambda>ph e. analyze_op False ph e) elements env2 = Inr (xelements, child) \<and>
      frame_maxslots (make_Bindings_Environ builtin_env fields) \<le> frame_maxslots env2 \<and>
      frame_maxslots env2 \<le> frame_maxslots child \<and>
      Module_Expr module_ex [(''f'', 0), (''a'', 1)]
        [Lambda (Arg_Ref (Identifier (tk k_ident 7 8) ''x'') 0) 1 1,
         Thunk (Constant (Numeral (tk k_num 14 15) ''1'') (Num_Value (Strtod ''1'')))]
        [] 0 =
      Module_Expr module_ex (dictionary fields) slots xelements (frame_maxslots child))"
proof -
  let ?largs = "[(Definition_Phrase (Identifier (tk k_ident 4 5) ''a'') (tk k_equate 5 6)
         (Numeral (tk k_num 6 7) ''1''), tk k_comma 7 8),
      (Definition_Phrase (Identifier (tk k_ident 9 10) ''b'') (tk k_equate 10 11)
         (Binary_Phrase (Identifier (tk k_ident 11 12) ''a'') (tk k_plus 12 13)
            (Numeral (tk k_num 13 14) ''1'')), Token_default)]"
  let ?let = "Let_Phrase (tk k_let 0 3) (tk k_lparen 3 4) ?largs (tk k_rparen 14 15)
             (Identifier (tk k_ident 16 17) ''b'')"
  let ?fargs = "[(Definition_Phrase (Identifier (tk k_ident 5 6) ''i'') (tk k_equate 7 8)
         (Bracket_Phrase (tk k_lbracket 9 10) [(Numeral (tk k_num 10 11) ''1'', Token_default)]
            (tk k_rbracket 11 12)), Token_default)]"
  let ?for = "For_Phrase (tk k_for 0 3) (tk k_lparen 4 5) ?fargs (tk k_rparen 12 13)
             (Identifier (tk k_ident 14 15) ''i'')"
  let ?params = "Paren_Phrase (tk k_lparen 0 1)
        [(Identifier (tk k_ident 1 2) ''a'', tk k_comma 2 3),
         (Identifier (tk k_ident 3 4) ''b'', Token_default)]
        (tk k_rparen 4 5)"
  let ?lam = "Lambda_Phrase ?params (tk k_right_arrow 5 7) (Identifier (tk k_ident 7 8) ''a'') False"
  let ?mbody = "Semicolon_Phrase
     [(Definition_Phrase
         (Call_Phrase (Identifier (tk k_ident 0 1) ''f'')
            (Paren_Phrase (tk k_lparen 1 2) [(Identifier (tk k_ident 2 3) ''x'', Token_default)]
               (tk k_rparen 3 4)) Token_default)
         (tk k_equate 5 6) (Identifier (tk k_ident 7 8) ''x''), tk k_semicolon 8 9),
      (Definition_Phrase (Identifier (tk k_ident 10 11) ''a'') (tk k_equate 12 13)
         (Numeral (tk k_num 14 15) ''1''), Token_default)]"
  obtain lm where l: "analyze False ?let builtin_env = Inr (lm, set_frame_maxslots builtin_env 2)"
    using analyze_let_ex [of False] by (simp add: let_ex_def del: analyze.simps)
  note i1 = frame_counters [where rtl = False and env = builtin_env and ph = ?let and m = lm and
      env' = "set_frame_maxslots builtin_env 2" and lt = "tk k_let 0 3" and lp = "tk k_lparen 3 4" and
      args = ?largs and rp = "tk k_rparen 14 15" and body = "Identifier (tk k_ident 16 17) ''b''"]
  from i1 [THEN conjunct2, THEN conjunct2, THEN conjunct2, THEN conjunct2, THEN conjunct2, THEN conjunct2, THEN conjunct2, THEN conjunct2, THEN conjunct2, THEN conjunct1] l
  have a: "env_rel builtin_env (set_frame_maxslots builtin_env 2)"
    by (rule mp)
  from i1 [THEN conjunct2, THEN conjunct2, THEN conjunct2, THEN conjunct2, THEN conjunct2, THEN conjunct2, THEN conjunct2, THEN conjunct2, THEN conjunct2, THEN conjunct2, THEN conjunct1, rule_format, OF l]
  obtain bindings "values" env2 b child where
    lv: "let_values False (frame_nslots builtin_env) (sort_key fst bindings)
          (replicate (length ?largs) Null_Value) (make_Let_Environ builtin_env bindings) =
         Inr (values, env2)" and
    rest: "analyze_op False (Identifier (tk k_ident 16 17) ''b'') env2 = Inr (b, child)"
      "scope child = Let_Environ bindings"
      "frame_maxslots (set_frame_maxslots builtin_env 2) = frame_maxslots child"
      "frame_maxslots env2 \<le> frame_maxslots child" and
    pre: "\<forall>pre post vs ei.
            sort_key fst bindings = pre @ post \<and>
            let_values False (frame_nslots builtin_env) pre (replicate (length ?largs) Null_Value)
              (make_Let_Environ builtin_env bindings) = Inr (vs, ei) \<longrightarrow>
            frame_maxslots ei \<le> frame_maxslots env2"
    by blast
  from pre [rule_format, of "[]" "sort_key fst bindings"]
  have "frame_maxslots (make_Let_Environ builtin_env bindings) \<le> frame_maxslots env2"
    by simp
  with lv rest have b: "\<exists>bindings values env2 b child.
      let_values False (frame_nslots builtin_env) (sort_key fst bindings)
        (replicate 2 Null_Value) (make_Let_Environ builtin_env bindings) = Inr (values, env2) \<and>
      analyze_op False (Identifier (tk k_ident 16 17) ''b'') env2 = Inr (b, child) \<and>
      scope child = Let_Environ bindings \<and>
      frame_maxslots (set_frame_maxslots builtin_env 2) = frame_maxslots child \<and>
      frame_maxslots env2 \<le> frame_maxslots child \<and>
      frame_maxslots (make_Let_Environ builtin_env bindings) \<le> frame_maxslots env2"
    by (intro exI [of _ bindings] exI [of _ "values"] exI [of _ env2] exI [of _ b]
        exI [of _ child]) (simp add: numeral_2_eq_2)
  obtain fm where f: "analyze False ?for builtin_env = Inr (fm, set_frame_maxslots builtin_env 1)"
    using analyze_for_ex by (simp add: for_ex_def del: analyze.simps)
  note i2 = frame_counters [where rtl = False and env = builtin_env and m = fm and
      env' = "set_frame_maxslots builtin_env 1" and ft = "tk k_for 0 3" and lp = "tk k_lparen 4 5" and
      args = ?fargs and rp = "tk k_rparen 12 13" and body = "Identifier (tk k_ident 14 15) ''i''"]
  from i2 [THEN conjunct2, THEN conjunct2, THEN conjunct2, THEN conjunct2, THEN conjunct2, THEN conjunct2, THEN conjunct2, THEN conjunct2, THEN conjunct2, THEN conjunct2, THEN conjunct2, THEN conjunct1, rule_format, OF f]
  have c: "\<exists>x right list env1 b child.
      analyze_op False right builtin_env = Inr (list, env1) \<and>
      analyze_op False (Identifier (tk k_ident 14 15) ''i'')
        (make_For_Environ env1 x (frame_nslots env1)) = Inr (b, child) \<and>
      scope child = For_Environ x (frame_nslots env1) \<and>
      frame_maxslots (set_frame_maxslots builtin_env 1) = frame_maxslots child \<and>
      frame_maxslots (make_For_Environ env1 x (frame_nslots env1)) \<le> frame_maxslots child"
    by blast
  let ?r = "Lambda_Expr ?lam (Arg_Ref (Identifier (tk k_ident 7 8) ''a'') 0) [] 2 2"
  have lm: "analyze False ?lam builtin_env = Inr (?r, builtin_env)"
    by (simp add: builtin_env_def make_Arg_Environ_def)
  have lp: "lambda_params ?params = Inr [(''a'', 0), (''b'', 1)]" by simp
  note i3 = frame_counters [where rtl = False and env = builtin_env and env' = builtin_env and
      m = ?r and left = ?params and tok = "tk k_right_arrow 5 7" and
      right = "Identifier (tk k_ident 7 8) ''a''" and recursive = False]
  from i3 [THEN conjunct2, THEN conjunct2, THEN conjunct2, THEN conjunct2, THEN conjunct2, THEN conjunct2, THEN conjunct2, THEN conjunct2, THEN conjunct2, THEN conjunct2, THEN conjunct2, THEN conjunct2, THEN conjunct1, rule_format, OF lm]
  have "\<exists>params expr child. lambda_params ?params = Inr params \<and>
      analyze_op False (Identifier (tk k_ident 7 8) ''a'')
        (make_Arg_Environ builtin_env params False) = Inr (expr, child) \<and>
      ?r = Lambda_Expr ?lam expr (nonlocal_exprs child) (length params) (frame_maxslots child)"
    by blast
  with lp have d: "\<exists>expr child.
      analyze_op False (Identifier (tk k_ident 7 8) ''a'')
        (make_Arg_Environ builtin_env [(''a'', 0), (''b'', 1)] False) = Inr (expr, child) \<and>
      Lambda_Expr lam_ab (Arg_Ref (Identifier (tk k_ident 7 8) ''a'') 0) [] 2 2 =
        Lambda_Expr lam_ab expr (nonlocal_exprs child) 2 (frame_maxslots child)"
    unfolding lam_ab_def by (auto simp del: lambda_params.simps)
  have e: "frame_maxslots builtin_env = 0" by (simp add: builtin_env_def)
  let ?mr = "Module_Expr module_ex [(''f'', 0), (''a'', 1)]
        [Lambda (Arg_Ref (Identifier (tk k_ident 7 8) ''x'') 0) 1 1,
         Thunk (Constant (Numeral (tk k_num 14 15) ''1'') (Num_Value (Strtod ''1'')))]
        [] 0"
  have md: "analyze False (Module_Phrase ?mbody) builtin_env = Inr (?mr, builtin_env)"
    using analyze_module_ex by (simp add: module_ex_def del: analyze.simps)
  have mk: "mark_body ?mbody = ?mbody" by simp
  note i4 = frame_counters [where rtl = False and env = builtin_env and env' = builtin_env and
      m = ?mr and mbody = ?mbody]
  from i4 [THEN conjunct2, THEN conjunct2, THEN conjunct2, THEN conjunct2, THEN conjunct2, THEN conjunct2, THEN conjunct2, THEN conjunct2, THEN conjunct2, THEN conjunct2, THEN conjunct2, THEN conjunct2, THEN conjunct2, rule_format, OF md]
  have "\<exists>stmts fields elements slots env2 xelements child.
         Statements ?mbody = Inr stmts \<and>
         module_fields stmts (Bindings [] 0 []) [] = Inr (fields, elements) \<and>
         analyze_values False fields (make_Bindings_Environ builtin_env fields) = Inr (slots, env2) \<and>
         mapM_env (\<lambda>ph e. analyze_op False ph e) elements env2 = Inr (xelements, child) \<and>
         frame_maxslots (make_Bindings_Environ builtin_env fields) \<le> frame_maxslots env2 \<and>
         frame_maxslots env2 \<le> frame_maxslots child \<and>
         ?mr = Module_Expr (Module_Phrase (mark_body ?mbody)) (dictionary fields) slots xelements
               (frame_maxslots child)"
    by blast
  then have g: "\<exists>fields elements slots env2 xelements child.
      analyze_values False fields (make_Bindings_Environ builtin_env fields) = Inr (slots, env2) \<and>
      mapM_env (\<lambda>ph e. analyze_op False ph e) elements env2 = Inr (xelements, child) \<and>
      frame_maxslots (make_Bindings_Environ builtin_env fields) \<le> frame_maxslots env2 \<and>
      frame_maxslots env2 \<le> frame_maxslots child \<and>
      ?mr = Module_Expr module_ex (dictionary fields) slots xelements (frame_maxslots child)"
    unfolding mk module_ex_def by blast
  from a b c d e g show ?thesis by blast
qed


section \<open>The nonlocals of a lambda\<close>

text \<open>
  \<open>nl_refs m\<close> collects the \<open>Nonlocal_Ref\<close> nodes of \<open>m\<close> that index the nonlocals of
  the innermost enclosing lambda whose flag \<open>recursive_\<close> is not set, each with its
  source phrase and its slot. A \<open>Lambda_Expr\<close> of that kind inside \<open>m\<close> has a list of
  its own, so its body is not entered and the entries of its list are, since they are
  evaluated outside it. A lambda whose flag is set has no list: the lookups of its
  body go through to the enclosing scopes, and its body is entered. \<open>vl_refs\<close> is the
  same for the values of the slots of a \<open>let\<close> or of a module.
\<close>

fun lambda_recursive :: "phrase \<Rightarrow> bool" where
  "lambda_recursive (Lambda_Phrase l t r f) = f"
| "lambda_recursive p = False"

fun vl_refs :: "value \<Rightarrow> (phrase \<times> nat) set" and nl_refs :: "meaning \<Rightarrow> (phrase \<times> nat) set" where
  "vl_refs (Lambda body nargs nslots) = nl_refs body"
| "vl_refs (Thunk m) = nl_refs m"
| "vl_refs Null_Value = {}"
| "vl_refs (Bool_Value b) = {}"
| "vl_refs (Num_Value n) = {}"
| "vl_refs (String_Value s) = {}"
| "vl_refs (Function_Value f) = {}"
| "nl_refs (Nonlocal_Ref src k) = {(src, k)}"
| "nl_refs (Constant src v) = {}"
| "nl_refs (Not_Expr src a) = nl_refs a"
| "nl_refs (Prefix_Expr src op a) = nl_refs a"
| "nl_refs (Infix_Expr src op a b) = nl_refs a \<union> nl_refs b"
| "nl_refs (Or_Expr src a b) = nl_refs a \<union> nl_refs b"
| "nl_refs (And_Expr src a b) = nl_refs a \<union> nl_refs b"
| "nl_refs (Equal_Expr src a b) = nl_refs a \<union> nl_refs b"
| "nl_refs (Not_Equal_Expr src a b) = nl_refs a \<union> nl_refs b"
| "nl_refs (Less_Expr src a b) = nl_refs a \<union> nl_refs b"
| "nl_refs (Greater_Expr src a b) = nl_refs a \<union> nl_refs b"
| "nl_refs (Less_Or_Equal_Expr src a b) = nl_refs a \<union> nl_refs b"
| "nl_refs (Greater_Or_Equal_Expr src a b) = nl_refs a \<union> nl_refs b"
| "nl_refs (Power_Expr src a b) = nl_refs a \<union> nl_refs b"
| "nl_refs (Dot_Expr src a x) = nl_refs a"
| "nl_refs (At_Expr src a b) = nl_refs a \<union> nl_refs b"
| "nl_refs (If_Expr src a b) = nl_refs a \<union> nl_refs b"
| "nl_refs (If_Else_Expr src a b c) = nl_refs a \<union> nl_refs b \<union> nl_refs c"
| "nl_refs (Let_Expr src first vs body) = (\<Union>v \<in> set vs. vl_refs v) \<union> nl_refs body"
| "nl_refs (For_Expr src slot list body) = nl_refs list \<union> nl_refs body"
| "nl_refs (Range_Gen src a b c) = nl_refs a \<union> nl_refs b \<union> (\<Union>m \<in> set_option c. nl_refs m)"
| "nl_refs (List_Expr src ms) = (\<Union>m \<in> set ms. nl_refs m)"
| "nl_refs (Sequence_Expr src ms) = (\<Union>m \<in> set ms. nl_refs m)"
| "nl_refs (Record_Expr src fields) = (\<Union>f \<in> set fields. nl_refs (snd f))"
| "nl_refs (Lambda_Expr src body nonlocals nargs nslots) =
     (if lambda_recursive src then nl_refs body else {}) \<union> (\<Union>m \<in> set nonlocals. nl_refs m)"
| "nl_refs (Call_Expr src f args argv) = nl_refs f \<union> (\<Union>m \<in> set argv. nl_refs m)"
| "nl_refs (Module_Expr src dict slots elements n) =
     (\<Union>v \<in> set slots. vl_refs v) \<union> (\<Union>m \<in> set elements. nl_refs m)"
| "nl_refs (Echo_Action src argv) = (\<Union>m \<in> set argv. nl_refs m)"
| "nl_refs (Arg_Ref src k) = {}"
| "nl_refs (Let_Ref src k) = {}"
| "nl_refs (Module_Ref src k) = {}"
| "nl_refs (Nonlocal_Function_Ref src k) = {}"
| "nl_refs (Echo_Metafunction src) = {}"

text \<open>The source phrase that every meaning carries (\<open>Meaning::source_\<close>).\<close>

fun source :: "meaning \<Rightarrow> phrase" where
  "source (Constant src v) = src"
| "source (Not_Expr src a) = src"
| "source (Prefix_Expr src op a) = src"
| "source (Infix_Expr src op a b) = src"
| "source (Or_Expr src a b) = src"
| "source (And_Expr src a b) = src"
| "source (Equal_Expr src a b) = src"
| "source (Not_Equal_Expr src a b) = src"
| "source (Less_Expr src a b) = src"
| "source (Greater_Expr src a b) = src"
| "source (Less_Or_Equal_Expr src a b) = src"
| "source (Greater_Or_Equal_Expr src a b) = src"
| "source (Power_Expr src a b) = src"
| "source (Dot_Expr src a x) = src"
| "source (At_Expr src a b) = src"
| "source (If_Expr src a b) = src"
| "source (If_Else_Expr src a b c) = src"
| "source (Let_Expr src first vs body) = src"
| "source (For_Expr src slot list body) = src"
| "source (Range_Gen src a b c) = src"
| "source (List_Expr src ms) = src"
| "source (Sequence_Expr src ms) = src"
| "source (Record_Expr src fields) = src"
| "source (Lambda_Expr src body nonlocals nargs nslots) = src"
| "source (Call_Expr src f args argv) = src"
| "source (Module_Expr src dict slots elements n) = src"
| "source (Echo_Action src argv) = src"
| "source (Arg_Ref src k) = src"
| "source (Let_Ref src k) = src"
| "source (Module_Ref src k) = src"
| "source (Nonlocal_Ref src k) = src"
| "source (Nonlocal_Function_Ref src k) = src"
| "source (Echo_Metafunction src) = src"

text \<open>
  The capture state of an analysis: for every \<open>Arg_Environ\<close> of the chain whose flag is
  not set, innermost first, its parameters, its \<open>nonlocal_dictionary_\<close> and its
  \<open>nonlocal_exprs_\<close>.
\<close>

type_synonym frame = "(atom \<times> nat) list \<times> (atom \<times> nat) list \<times> meaning list"

fun frame_of :: "scope \<Rightarrow> frame list" where
  "frame_of (Arg_Environ names nd ne False) = [(names, nd, ne)]"
| "frame_of sc = []"

fun frames :: "environ \<Rightarrow> frame list" where
  "frames (Environ sc ns ms None) = frame_of sc"
| "frames (Environ sc ns ms (Some p)) = frame_of sc @ frames p"

text \<open>
  \<open>captured names nd n nd2 ne2\<close>: the entries \<open>nd2\<close>, \<open>ne2\<close> appended to a dictionary
  \<open>nd\<close> and a list of \<open>n\<close> operations are one operation per new name, at consecutive
  slots from \<open>n\<close>, no constant among them, each the meaning of an identifier of that
  name, and no name is a parameter or a name already in the dictionary. \<open>grow\<close> is
  what an analysis does to a frame. \<open>refs_ok f f' M\<close>: the references \<open>M\<close> of the
  meaning that the analysis returned are identifiers in the dictionary with their
  slots, and they cover the slots that the analysis added. \<open>cap_frames fs M fs'\<close> says
  this of every frame of the chain, the references into the next frame being those of
  the operations added to the frame before it (\<open>entry_refs\<close>); outside every such
  lambda there is no \<open>Nonlocal_Ref\<close>.
\<close>

definition captured :: "(atom \<times> nat) list \<Rightarrow> (atom \<times> nat) list \<Rightarrow> nat \<Rightarrow>
    (atom \<times> nat) list \<Rightarrow> meaning list \<Rightarrow> bool" where
  "captured names nd n nd2 ne2 =
     (length nd2 = length ne2 \<and> map snd nd2 = [n..<n + length ne2] \<and> distinct (map fst nd2) \<and>
      fst ` set nd2 \<inter> (fst ` set nd \<union> fst ` set names) = {} \<and>
      (\<forall>i<length ne2. is_Operation (ne2 ! i) \<and> \<not> is_Constant (ne2 ! i) \<and>
          (\<exists>t. source (ne2 ! i) = Identifier t (fst (nd2 ! i)))))"

fun grow :: "frame \<Rightarrow> frame \<Rightarrow> bool" where
  "grow (names, nd, ne) (names', nd', ne') =
     (names' = names \<and>
      (\<exists>nd2 ne2. nd' = nd @ nd2 \<and> ne' = ne @ ne2 \<and> captured names nd (length ne) nd2 ne2))"

fun entry_refs :: "frame \<Rightarrow> frame \<Rightarrow> (phrase \<times> nat) set" where
  "entry_refs (names, nd, ne) (names', nd', ne') = (\<Union>m \<in> set (drop (length ne) ne'). nl_refs m)"

fun refs_ok :: "frame \<Rightarrow> frame \<Rightarrow> (phrase \<times> nat) set \<Rightarrow> bool" where
  "refs_ok (names, nd, ne) (names', nd', ne') M =
     ((\<forall>(src, k) \<in> M. \<exists>t a. src = Identifier t a \<and> (a, k) \<in> set nd') \<and>
      {length ne..<length ne'} \<subseteq> snd ` M)"

fun cap_frames :: "frame list \<Rightarrow> (phrase \<times> nat) set \<Rightarrow> frame list \<Rightarrow> bool" where
  "cap_frames [] M [] = (M = {})"
| "cap_frames (f # fs) M (f' # fs') =
     (grow f f' \<and> refs_ok f f' M \<and> cap_frames fs (entry_refs f f') fs')"
| "cap_frames fs M fs' = False"

lemma captured_Nil [simp]: "captured names nd n [] []"
  by (simp add: captured_def)


lemma grow_refl [simp]: "grow f f"
  by (cases f) simp


lemma entry_refs_refl [simp]: "entry_refs f f = {}"
  by (cases f) simp


lemma refs_ok_refl [simp]: "refs_ok f f {}"
  by (cases f) simp


lemma cap_frames_refl [simp]: "cap_frames fs {} fs"
  by (induction fs) auto


text \<open>A lookup, and then every analysis, keeps \<open>cap_frames\<close>.\<close>

lemma frames_Environ:
  "frames (Environ sc ns ms par) = frame_of sc @ (case par of None \<Rightarrow> [] | Some p \<Rightarrow> frames p)"
  by (cases par) simp_all

lemma nl_refs_to_meaning [simp]: "nl_refs (to_meaning b ident) = {}"
  by (cases b) simp_all

lemma source_to_meaning [simp]: "source (to_meaning b ident) = ident"
  by (cases b) simp_all

lemma is_Constant_refs: "is_Constant m \<Longrightarrow> nl_refs m = {}"
  by (cases m) simp_all

lemma not_Operation_refs: "\<not> is_Operation m \<Longrightarrow> nl_refs m = {}"
  by (cases m) simp_all

lemma single_lookup_source: "single_lookup env t a = Inr (Some m, env') \<Longrightarrow> source m = Identifier t a"
  and lookup_source: "lookup env t a = Inr (m, env') \<Longrightarrow> source m = Identifier t a"
proof (induction env t a and env t a arbitrary: m env' and m env'
    rule: single_lookup_lookup.induct)
  case (1 names ns ms par t a)
  then show ?case by (auto split: option.splits)
next
  case (2 b ns ms par t a)
  then show ?case by (auto split: option.splits if_splits)
next
  case (3 names ns ms par t a)
  then show ?case by (auto split: option.splits)
next
  case (4 name slot ns ms par t a)
  then show ?case by (auto split: if_splits)
next
  case (5 names nd ne recursive ns ms par t a)
  then show ?case
    by (auto split: option.splits if_splits sum.splits)
next
  case (6 sc ns ms par t a)
  show ?case
  proof (cases "single_lookup (Environ sc ns ms par) t a")
    case (Inl e)
    with 6(3) show ?thesis by simp
  next
    case (Inr r)
    obtain om e1 where r: "r = (om, e1)" by (cases r)
    show ?thesis
    proof (cases om)
      case (Some m')
      with 6(3) Inr r have "m' = m" by simp
      with 6(1) [of m e1] Inr r Some show ?thesis by simp
    next
      case None
      from None 6(3) Inr r obtain p p' where par: "par = Some p" and
        lk: "lookup p t a = Inr (m, p')"
        by (auto split: option.splits sum.splits)
      from Inr r None have "(None, e1) = r" by simp
      from 6(2) [OF Inr this refl par lk] show ?thesis .
    qed
  qed
qed

lemma single_lookup_None_frame:
  "single_lookup (Environ sc ns ms par) t a = Inr (None, e) \<Longrightarrow> frame_of sc = []"
  by (cases sc) (auto split: option.splits if_splits sum.splits)

lemma cap_frames_same:
  assumes "\<forall>(src, k) \<in> M. \<exists>t a. src = Identifier t a \<and> (a, k) \<in> set nd"
  shows "cap_frames ((names, nd, ne) # fs) M ((names, nd, ne) # fs)"
  using assms by simp

lemma single_lookup_cap:
  "single_lookup env t a = Inr (om, env') \<Longrightarrow>
     cap_frames (frames env) (case om of None \<Rightarrow> {} | Some m \<Rightarrow> nl_refs m) (frames env')"
  and lookup_cap:
  "lookup env t a = Inr (m, env') \<Longrightarrow> cap_frames (frames env) (nl_refs m) (frames env')"
proof (induction env t a and env t a arbitrary: om env' and m env'
    rule: single_lookup_lookup.induct)
  case (1 names ns ms par t a)
  then show ?case by (auto split: option.splits)
next
  case (2 b ns ms par t a)
  then show ?case by (auto split: option.splits if_splits)
next
  case (3 names ns ms par t a)
  then show ?case by (auto split: option.splits)
next
  case (4 name slot ns ms par t a)
  then show ?case by (auto split: if_splits)
next
  case (5 names nd ne recursive ns ms par t a)
  let ?env = "Environ (Arg_Environ names nd ne recursive) ns ms par"
  show ?case
  proof (cases "map_of names a")
    case (Some slot)
    with 5(2) show ?thesis by auto
  next
    case None
    note notparam = None
    show ?thesis
    proof (cases recursive)
      case True
      with None 5(2) show ?thesis by auto
    next
      case False
      show ?thesis
      proof (cases "map_of nd a")
        case (Some n)
        then have "(a, n) \<in> set nd" by (rule map_of_SomeD)
        then have n: "\<forall>(src, k) \<in> {(Identifier t a, n)}. \<exists>t a. src = Identifier t a \<and> (a, k) \<in> set nd"
          by simp
        from Some notparam False 5(2) have
          "om = Some (Nonlocal_Ref (Identifier t a) n)" and
          "env' = Environ (Arg_Environ names nd ne recursive) ns ms par"
          by auto
        with False cap_frames_same [OF n] show ?thesis
          by (simp add: frames_Environ del: cap_frames.simps)
      next
        case None
        from None notparam False 5(2) obtain p pm p' where
          par: "par = Some p" and lk: "lookup p t a = Inr (pm, p')"
          by (auto split: option.splits sum.splits)
        from 5(1) [OF notparam _ None par lk] False
        have IH: "cap_frames (frames p) (nl_refs pm) (frames p')" by simp
        show ?thesis
        proof (cases "is_Constant pm \<or> \<not> is_Operation pm")
          case True
          then have "nl_refs pm = {}" by (auto dest: is_Constant_refs not_Operation_refs)
          moreover from True None notparam False 5(2) par lk have
            "om = Some pm" and "env' = Environ (Arg_Environ names nd ne recursive) ns ms (Some p')"
            by (auto split: if_splits)
          ultimately show ?thesis using IH False par by simp
        next
          case op: False
          with None notparam False 5(2) par lk have
            om: "om = Some (Nonlocal_Ref (Identifier t a) (length ne))" and
            env': "env' = Environ (Arg_Environ names (nd @ [(a, length ne)]) (ne @ [pm]) recursive)
                     ns ms (Some p')"
            by (auto split: if_splits)
          have "a \<notin> fst ` set nd" and "a \<notin> fst ` set names"
            using None notparam by (simp_all add: map_of_eq_None_iff)
          with op lookup_source [OF lk]
          have "captured names nd (length ne) [(a, length ne)] [pm]"
            by (simp add: captured_def)
          with IH om env' False par show ?thesis by simp
        qed
      qed
    qed
  qed
next
  case (6 sc ns ms par t a)
  show ?case
  proof (cases "single_lookup (Environ sc ns ms par) t a")
    case (Inl e)
    with 6(3) show ?thesis by simp
  next
    case (Inr r)
    obtain om e1 where r: "r = (om, e1)" by (cases r)
    show ?thesis
    proof (cases om)
      case (Some m')
      with 6(3) Inr r have "m' = m" "e1 = env'" by simp_all
      with 6(1) [of om e1] Inr r Some show ?thesis by simp
    next
      case None
      from None 6(3) Inr r obtain p p' where par: "par = Some p" and
        lk: "lookup p t a = Inr (m, p')" and env': "env' = Environ sc ns ms (Some p')"
        by (auto split: option.splits sum.splits)
      from Inr r None have eq: "(None, e1) = r" by simp
      from Inr r None have "frame_of sc = []"
        by (auto dest: single_lookup_None_frame)
      with 6(2) [OF Inr eq refl par lk] par env' show ?thesis by simp
    qed
  qed
qed







lemma nl_refs_binary_node [simp]: "nl_refs (binary_node k src l r) = nl_refs l \<union> nl_refs r"
  by (simp add: binary_node_def)



lemma frames_set_frame_maxslots [simp]: "frames (set_frame_maxslots e n) = frames e"
  by (cases e) (simp add: frames_Environ)






lemma frames_make_Let_Environ [simp]: "frames (make_Let_Environ env bs) = frames env"
  by (simp add: make_Let_Environ_def)

lemma frames_make_For_Environ [simp]: "frames (make_For_Environ env a n) = frames env"
  by (simp add: make_For_Environ_def)

lemma frames_make_Bindings_Environ [simp]: "frames (make_Bindings_Environ env b) = frames env"
  by (simp add: make_Bindings_Environ_def)
















section \<open>The parser\<close>

text \<open>
  Modelled from the spec: the scanner (its source is not part of the repository). The
  spec's contract is that \<open>get_token\<close> returns the next token and, at the end of the
  input, a token of kind \<open>k_end\<close> again and again, and that \<open>push_token\<close> returns one
  token to the stream. The scanner is the script and the tokens still to come; the
  lexical errors that the real scanner raises are outside the model.
\<close>

datatype scanner = Scanner (script: string) (tokens: "token list")

fun get_token :: "scanner \<Rightarrow> token \<times> scanner" where
  "get_token (Scanner s []) = (Token k_end (length s) (length s) (length s), Scanner s [])"
| "get_token (Scanner s (t # ts)) = (t, Scanner s ts)"

fun push_token :: "token \<Rightarrow> scanner \<Rightarrow> scanner" where
  "push_token t (Scanner s ts) = Scanner s (t # ts)"

text \<open>
  Modelled from the spec: the lexeme of a token, which the constructors of \<open>Numeral\<close>,
  \<open>Identifier\<close> and \<open>String_Phrase\<close> read from the script, and the constructor of a
  delimited phrase, which takes the body that \<open>parse_commas\<close> returned (the spec:
  a delimited phrase holds "a sequence of \<open>{expr, comma}\<close> pairs plus the bracket
  tokens").
\<close>

definition lexeme :: "scanner \<Rightarrow> token \<Rightarrow> string" where
  "lexeme sc t = take (tok_last t - tok_first t) (drop (tok_first t) (script sc))"

fun delimited_args :: "phrase \<Rightarrow> (phrase \<times> token) list" where
  "delimited_args (Empty_Phrase t) = []"
| "delimited_args (Comma_Phrase args) = args"
| "delimited_args p = [(p, Token_default)]"

text \<open>
  A parse function returns a phrase and the scanner it leaves, or raises. The parser is
  recursive on the input, and its loops run until a token stops them, so the functions
  take the number \<open>n\<close> of nested calls and loop rounds they may still make: \<open>None\<close>
  is "\<open>n\<close> was not enough".
\<close>

type_synonym 'a parse = "(exception + ('a \<times> scanner)) option"

fun and_then :: "'a parse \<Rightarrow> ('a \<Rightarrow> scanner \<Rightarrow> 'b parse) \<Rightarrow> 'b parse" where
  "and_then None f = None"
| "and_then (Some (Inl e)) f = Some (Inl e)"
| "and_then (Some (Inr (x, sc))) f = f x sc"

definition ok :: "'a \<Rightarrow> scanner \<Rightarrow> 'a parse" where
  "ok x sc = Some (Inr (x, sc))"

definition throw :: "exception \<Rightarrow> 'a parse" where
  "throw e = Some (Inl e)"

definition is_list_end_token :: "token_kind \<Rightarrow> bool" where
  "is_list_end_token k = (k = k_end \<or> k = k_rparen \<or> k = k_rbracket \<or> k = k_rbrace)"

definition is_semicolon_end_token :: "token_kind \<Rightarrow> bool" where
  "is_semicolon_end_token k =
     (k = k_end \<or> k = k_comma \<or> k = k_rparen \<or> k = k_rbracket \<or> k = k_rbrace)"

definition what_if :: string where
  "what_if = ''condition following 'if'' @ [CHR 0x27]"

definition what_for :: string where
  "what_for = ''argument following 'for'' @ [CHR 0x27]"

definition what_let :: string where
  "what_let = ''argument following 'let'' @ [CHR 0x27]"

definition what_apostrophe :: string where
  "what_apostrophe = ''expression following '' @ [CHR 0x27]"

text \<open>
  The parse functions of the source, one equation each; a loop \<open>for (;;)\<close> is the
  function of the same name with \<open>_loop\<close>, which takes what the loop has built so far.
  \<open>parse_primary\<close> returns \<open>None\<close> for the source's \<open>nullptr\<close>, which it only does when
  \<open>what\<close> is \<open>None\<close>. \<open>parse_delimited\<close> takes the constructor of its template
  argument.
\<close>

function parse_commas :: "nat \<Rightarrow> scanner \<Rightarrow> phrase parse"
  and parse_commas_loop :: "nat \<Rightarrow> (phrase \<times> token) list \<Rightarrow> scanner \<Rightarrow> phrase parse"
  and parse_semicolons :: "nat \<Rightarrow> scanner \<Rightarrow> phrase parse"
  and parse_semicolons_loop :: "nat \<Rightarrow> (phrase \<times> token) list \<Rightarrow> scanner \<Rightarrow> phrase parse"
  and parse_item :: "nat \<Rightarrow> scanner \<Rightarrow> phrase parse"
  and parse_disjunction :: "nat \<Rightarrow> scanner \<Rightarrow> phrase parse"
  and parse_disjunction_loop :: "nat \<Rightarrow> phrase \<Rightarrow> scanner \<Rightarrow> phrase parse"
  and parse_conjunction :: "nat \<Rightarrow> scanner \<Rightarrow> phrase parse"
  and parse_conjunction_loop :: "nat \<Rightarrow> phrase \<Rightarrow> scanner \<Rightarrow> phrase parse"
  and parse_relation :: "nat \<Rightarrow> scanner \<Rightarrow> phrase parse"
  and parse_range :: "nat \<Rightarrow> scanner \<Rightarrow> phrase parse"
  and parse_sum :: "nat \<Rightarrow> scanner \<Rightarrow> phrase parse"
  and parse_sum_loop :: "nat \<Rightarrow> phrase \<Rightarrow> scanner \<Rightarrow> phrase parse"
  and parse_product :: "nat \<Rightarrow> scanner \<Rightarrow> phrase parse"
  and parse_product_loop :: "nat \<Rightarrow> phrase \<Rightarrow> scanner \<Rightarrow> phrase parse"
  and parse_unary :: "nat \<Rightarrow> scanner \<Rightarrow> phrase parse"
  and parse_postfix :: "nat \<Rightarrow> scanner \<Rightarrow> phrase parse"
  and parse_postfix_loop :: "nat \<Rightarrow> phrase \<Rightarrow> scanner \<Rightarrow> phrase parse"
  and parse_delimited :: "nat \<Rightarrow> (token \<Rightarrow> (phrase \<times> token) list \<Rightarrow> token \<Rightarrow> phrase) \<Rightarrow> token \<Rightarrow>
        token_kind \<Rightarrow> scanner \<Rightarrow> phrase parse"
  and parse_primary :: "nat \<Rightarrow> string option \<Rightarrow> scanner \<Rightarrow> phrase option parse"
where
  "parse_commas 0 sc = None"
| "parse_commas (Suc n) sc =
     (case get_token sc of (tok, sc1) \<Rightarrow>
        if is_list_end_token (kind tok)
        then ok (Empty_Phrase (Token (kind tok) (tok_first_white tok) (tok_first tok) (tok_first tok)))
               (push_token tok sc1)
        else parse_commas_loop n [] (push_token tok sc1))"
| "parse_commas_loop 0 args sc = None"
| "parse_commas_loop (Suc n) args sc =
     and_then (parse_semicolons n sc) (\<lambda>semis sc1.
       case get_token sc1 of (tok, sc2) \<Rightarrow>
         if kind tok = k_comma then
           (case get_token sc2 of (tok2, sc3) \<Rightarrow>
              if is_list_end_token (kind tok2)
              then ok (Comma_Phrase (args @ [(semis, tok)])) (push_token tok2 sc3)
              else parse_commas_loop n (args @ [(semis, tok)]) (push_token tok2 sc3))
         else if is_list_end_token (kind tok) then
           (if args = [] then ok semis (push_token tok sc2)
            else ok (Comma_Phrase (args @ [(semis, Token_default)])) (push_token tok sc2))
         else throw (Exception (At_Token tok) ''syntax error in comma phrase''))"
| "parse_semicolons 0 sc = None"
| "parse_semicolons (Suc n) sc = parse_semicolons_loop n [] sc"
| "parse_semicolons_loop 0 args sc = None"
| "parse_semicolons_loop (Suc n) args sc =
     and_then (parse_item n sc) (\<lambda>item sc1.
       case get_token sc1 of (tok, sc2) \<Rightarrow>
         if kind tok = k_semicolon then
           (case get_token sc2 of (tok2, sc3) \<Rightarrow>
              if is_semicolon_end_token (kind tok2)
              then ok (Semicolon_Phrase (args @ [(item, tok)])) (push_token tok2 sc3)
              else parse_semicolons_loop n (args @ [(item, tok)]) (push_token tok2 sc3))
         else if is_semicolon_end_token (kind tok) then
           (if args = [] then ok item (push_token tok sc2)
            else ok (Semicolon_Phrase (args @ [(item, Token_default)])) (push_token tok sc2))
         else throw (Exception (At_Token tok) ''syntax error in semicolon phrase''))"
| "parse_item 0 sc = None"
| "parse_item (Suc n) sc =
     (case get_token sc of (tok, sc1) \<Rightarrow>
        if kind tok = k_ellipsis then
          and_then (parse_item n sc1) (\<lambda>item sc2. ok (Unary_Phrase tok item) sc2)
        else if kind tok = k_if then
          and_then (parse_primary n (Some what_if) sc1) (\<lambda>condition sc2.
            case condition of
              None \<Rightarrow> throw Undefined_Behaviour
            | Some cond \<Rightarrow>
                and_then (parse_item n sc2) (\<lambda>then_expr sc3.
                  case get_token sc3 of (tok2, sc4) \<Rightarrow>
                    if kind tok2 \<noteq> k_else
                    then ok (If_Phrase tok cond then_expr Token_default None) (push_token tok2 sc4)
                    else and_then (parse_item n sc4) (\<lambda>else_expr sc5.
                           ok (If_Phrase tok cond then_expr tok2 (Some else_expr)) sc5)))
        else if kind tok = k_for then
          and_then (parse_primary n (Some what_for) sc1) (\<lambda>p sc2.
            case p of
              Some (Paren_Phrase lp args rp) \<Rightarrow>
                and_then (parse_item n sc2) (\<lambda>body sc3. ok (For_Phrase tok lp args rp body) sc3)
            | Some q \<Rightarrow> throw (Exception (At_Phrase q) ''for: malformed argument'')
            | None \<Rightarrow> throw Undefined_Behaviour)
        else
          and_then (parse_disjunction n (push_token tok sc1)) (\<lambda>left sc2.
            case get_token sc2 of (tok2, sc3) \<Rightarrow>
              if kind tok2 = k_equate then
                and_then (parse_item n sc3) (\<lambda>right sc4. ok (Definition_Phrase left tok2 right) sc4)
              else if kind tok2 = k_colon then
                and_then (parse_item n sc3) (\<lambda>right sc4. ok (Binary_Phrase left tok2 right) sc4)
              else if kind tok2 = k_right_arrow then
                and_then (parse_item n sc3) (\<lambda>right sc4. ok (Lambda_Phrase left tok2 right False) sc4)
              else if kind tok2 = k_left_call then
                and_then (parse_item n sc3) (\<lambda>right sc4. ok (Call_Phrase left right tok2) sc4)
              else ok left (push_token tok2 sc3)))"
| "parse_disjunction 0 sc = None"
| "parse_disjunction (Suc n) sc =
     and_then (parse_conjunction n sc) (\<lambda>left sc1. parse_disjunction_loop n left sc1)"
| "parse_disjunction_loop 0 left sc = None"
| "parse_disjunction_loop (Suc n) left sc =
     (case get_token sc of (tok, sc1) \<Rightarrow>
        if kind tok = k_or then
          and_then (parse_conjunction n sc1) (\<lambda>right sc2.
            parse_disjunction_loop n (Binary_Phrase left tok right) sc2)
        else if kind tok = k_right_call then
          and_then (parse_conjunction n sc1) (\<lambda>function sc2.
            parse_disjunction_loop n (Call_Phrase function left tok) sc2)
        else ok left (push_token tok sc1))"
| "parse_conjunction 0 sc = None"
| "parse_conjunction (Suc n) sc =
     and_then (parse_relation n sc) (\<lambda>left sc1. parse_conjunction_loop n left sc1)"
| "parse_conjunction_loop 0 left sc = None"
| "parse_conjunction_loop (Suc n) left sc =
     (case get_token sc of (tok, sc1) \<Rightarrow>
        if kind tok = k_and then
          and_then (parse_relation n sc1) (\<lambda>right sc2.
            parse_conjunction_loop n (Binary_Phrase left tok right) sc2)
        else ok left (push_token tok sc1))"
| "parse_relation 0 sc = None"
| "parse_relation (Suc n) sc =
     and_then (parse_range n sc) (\<lambda>left sc1.
       case get_token sc1 of (tok, sc2) \<Rightarrow>
         if kind tok \<in> {k_equal, k_not_equal, k_less, k_less_or_equal, k_greater, k_greater_or_equal}
         then and_then (parse_range n sc2) (\<lambda>right sc3. ok (Binary_Phrase left tok right) sc3)
         else ok left (push_token tok sc2))"
| "parse_range 0 sc = None"
| "parse_range (Suc n) sc =
     and_then (parse_sum n sc) (\<lambda>left sc1.
       case get_token sc1 of (tok, sc2) \<Rightarrow>
         if kind tok = k_range \<or> kind tok = k_open_range then
           and_then (parse_sum n sc2) (\<lambda>right sc3.
             case get_token sc3 of (tok2, sc4) \<Rightarrow>
               if kind tok2 = k_by
               then and_then (parse_sum n sc4) (\<lambda>step sc5.
                      ok (Range_Phrase left tok right tok2 (Some step)) sc5)
               else ok (Range_Phrase left tok right Token_default None) (push_token tok2 sc4))
         else ok left (push_token tok sc2))"
| "parse_sum 0 sc = None"
| "parse_sum (Suc n) sc =
     and_then (parse_product n sc) (\<lambda>left sc1. parse_sum_loop n left sc1)"
| "parse_sum_loop 0 left sc = None"
| "parse_sum_loop (Suc n) left sc =
     (case get_token sc of (tok, sc1) \<Rightarrow>
        if kind tok = k_plus \<or> kind tok = k_minus then
          and_then (parse_product n sc1) (\<lambda>right sc2.
            parse_sum_loop n (Binary_Phrase left tok right) sc2)
        else ok left (push_token tok sc1))"
| "parse_product 0 sc = None"
| "parse_product (Suc n) sc =
     and_then (parse_unary n sc) (\<lambda>left sc1. parse_product_loop n left sc1)"
| "parse_product_loop 0 left sc = None"
| "parse_product_loop (Suc n) left sc =
     (case get_token sc of (tok, sc1) \<Rightarrow>
        if kind tok = k_times \<or> kind tok = k_over then
          and_then (parse_unary n sc1) (\<lambda>right sc2.
            parse_product_loop n (Binary_Phrase left tok right) sc2)
        else ok left (push_token tok sc1))"
| "parse_unary 0 sc = None"
| "parse_unary (Suc n) sc =
     (case get_token sc of (tok, sc1) \<Rightarrow>
        if kind tok = k_plus \<or> kind tok = k_minus \<or> kind tok = k_not then
          and_then (parse_unary n sc1) (\<lambda>arg sc2. ok (Unary_Phrase tok arg) sc2)
        else parse_postfix n (push_token tok sc1))"
| "parse_postfix 0 sc = None"
| "parse_postfix (Suc n) sc =
     and_then (parse_primary n (Some ''expression'') sc) (\<lambda>primary sc1.
       case primary of
         None \<Rightarrow> throw Undefined_Behaviour
       | Some postfix \<Rightarrow> parse_postfix_loop n postfix sc1)"
| "parse_postfix_loop 0 postfix sc = None"
| "parse_postfix_loop (Suc n) postfix sc =
     (case get_token sc of (tok, sc1) \<Rightarrow>
        if kind tok = k_power then
          and_then (parse_unary n sc1) (\<lambda>right sc2. ok (Binary_Phrase postfix tok right) sc2)
        else if kind tok = k_dot \<or> kind tok = k_apostrophe then
          and_then (parse_primary n
              (Some (if kind tok = k_dot then ''expression following .'' else what_apostrophe)) sc1)
            (\<lambda>primary sc2.
               case primary of
                 None \<Rightarrow> throw Undefined_Behaviour
               | Some right \<Rightarrow> parse_postfix_loop n (Binary_Phrase postfix tok right) sc2)
        else
          and_then (parse_primary n None (push_token tok sc1)) (\<lambda>primary sc2.
            case primary of
              None \<Rightarrow> ok postfix sc2
            | Some args \<Rightarrow> parse_postfix_loop n (Call_Phrase postfix args Token_default) sc2))"
| "parse_delimited 0 make tok close sc = None"
| "parse_delimited (Suc n) make tok close sc =
     and_then (parse_commas n sc) (\<lambda>body sc1.
       case get_token sc1 of (tok2, sc2) \<Rightarrow>
         if kind tok2 = k_end then throw (Exception (At_Token tok) ''unmatched delimiter'')
         else if kind tok2 \<noteq> close
         then throw (Exception (At_Token tok2) ''syntax error in delimited phrase'')
         else ok (make tok (delimited_args body) tok2) sc2)"
| "parse_primary 0 what sc = None"
| "parse_primary (Suc n) what sc =
     (case get_token sc of (tok, sc1) \<Rightarrow>
        if kind tok = k_num then ok (Some (Numeral tok (lexeme sc tok))) sc1
        else if kind tok = k_ident then ok (Some (Identifier tok (lexeme sc tok))) sc1
        else if kind tok = k_string then ok (Some (String_Phrase tok (lexeme sc tok))) sc1
        else if kind tok = k_let then
          and_then (parse_primary n (Some what_let) sc1) (\<lambda>p sc2.
            case p of
              Some (Paren_Phrase lp args rp) \<Rightarrow>
                and_then (parse_item n sc2) (\<lambda>body sc3. ok (Some (Let_Phrase tok lp args rp body)) sc3)
            | Some q \<Rightarrow> throw (Exception (At_Phrase q) ''let: malformed argument'')
            | None \<Rightarrow> throw Undefined_Behaviour)
        else if kind tok = k_lparen then
          and_then (parse_delimited n Paren_Phrase tok k_rparen sc1) (\<lambda>p sc2. ok (Some p) sc2)
        else if kind tok = k_lbracket then
          and_then (parse_delimited n Bracket_Phrase tok k_rbracket sc1) (\<lambda>p sc2. ok (Some p) sc2)
        else if kind tok = k_lbrace then
          and_then (parse_delimited n Brace_Phrase tok k_rbrace sc1) (\<lambda>p sc2. ok (Some p) sc2)
        else if kind tok = k_end then
          (case what of
             Some w \<Rightarrow> throw (Exception (At_Token tok) (''missing '' @ w))
           | None \<Rightarrow> ok None (push_token tok sc1))
        else
          (case what of
             Some w \<Rightarrow> throw (Exception (At_Token tok) (''unexpected token when expecting '' @ w))
           | None \<Rightarrow> ok None (push_token tok sc1)))"
  by pat_completeness auto

termination
  by (relation "measure (case_sum (case_sum (case_sum (case_sum fst fst) (case_sum fst (case_sum fst fst))) (case_sum (case_sum fst fst) (case_sum fst (case_sum fst fst)))) (case_sum (case_sum (case_sum fst fst) (case_sum fst (case_sum fst fst))) (case_sum (case_sum fst fst) (case_sum fst (case_sum fst fst)))))") auto

definition parse_program :: "nat \<Rightarrow> scanner \<Rightarrow> phrase parse" where
  "parse_program n sc =
     and_then (parse_commas n sc) (\<lambda>commas sc1.
       case get_token sc1 of (tok, sc2) \<Rightarrow>
         if kind tok \<noteq> k_end then throw (Exception (At_Token tok) ''syntax error in program'')
         else ok (Program_Phrase commas tok) sc2)"

text \<open>A token that is read and pushed back leaves the scanner as it was.\<close>

lemma peek_token:
  "tokens sc \<noteq> [] \<Longrightarrow> push_token (fst (get_token sc)) (snd (get_token sc)) = sc"
  by (cases sc; cases "tokens sc") auto

lemma get_token_end:
  "tokens sc = [] \<Longrightarrow> kind (fst (get_token sc)) = k_end"
  by (cases sc) auto

lemma not_end_tokens:
  "\<not> is_list_end_token (kind (fst (get_token sc))) \<Longrightarrow> tokens sc \<noteq> []"
  by (auto simp: is_list_end_token_def dest: get_token_end)

text \<open>
  A parse that returns with \<open>n\<close> calls returns the same with more: \<open>fuel_le n m\<close> says
  so of each function.
\<close>

lemma and_thenE:
  assumes "and_then a f = Some r"
  obtains e where "a = Some (Inl e)" and "r = Inl e"
    | x sc where "a = Some (Inr (x, sc))" and "f x sc = Some r"
proof (cases a)
  case None
  with assms show ?thesis by simp
next
  case (Some s)
  show ?thesis
  proof (cases s)
    case (Inl e)
    with Some assms that(1) show ?thesis by simp
  next
    case (Inr p)
    with Some assms that(2) [of "fst p" "snd p"] show ?thesis by (cases p) simp
  qed
qed

definition fuel_le :: "nat \<Rightarrow> nat \<Rightarrow> bool" where
  "fuel_le n m =
     ((\<forall>sc r. parse_commas n sc = Some r \<longrightarrow> parse_commas m sc = Some r) \<and>
      (\<forall>args sc r. parse_commas_loop n args sc = Some r \<longrightarrow> parse_commas_loop m args sc = Some r) \<and>
      (\<forall>sc r. parse_semicolons n sc = Some r \<longrightarrow> parse_semicolons m sc = Some r) \<and>
      (\<forall>args sc r. parse_semicolons_loop n args sc = Some r \<longrightarrow> parse_semicolons_loop m args sc = Some r) \<and>
      (\<forall>sc r. parse_item n sc = Some r \<longrightarrow> parse_item m sc = Some r) \<and>
      (\<forall>sc r. parse_disjunction n sc = Some r \<longrightarrow> parse_disjunction m sc = Some r) \<and>
      (\<forall>left sc r. parse_disjunction_loop n left sc = Some r \<longrightarrow> parse_disjunction_loop m left sc = Some r) \<and>
      (\<forall>sc r. parse_conjunction n sc = Some r \<longrightarrow> parse_conjunction m sc = Some r) \<and>
      (\<forall>left sc r. parse_conjunction_loop n left sc = Some r \<longrightarrow> parse_conjunction_loop m left sc = Some r) \<and>
      (\<forall>sc r. parse_relation n sc = Some r \<longrightarrow> parse_relation m sc = Some r) \<and>
      (\<forall>sc r. parse_range n sc = Some r \<longrightarrow> parse_range m sc = Some r) \<and>
      (\<forall>sc r. parse_sum n sc = Some r \<longrightarrow> parse_sum m sc = Some r) \<and>
      (\<forall>left sc r. parse_sum_loop n left sc = Some r \<longrightarrow> parse_sum_loop m left sc = Some r) \<and>
      (\<forall>sc r. parse_product n sc = Some r \<longrightarrow> parse_product m sc = Some r) \<and>
      (\<forall>left sc r. parse_product_loop n left sc = Some r \<longrightarrow> parse_product_loop m left sc = Some r) \<and>
      (\<forall>sc r. parse_unary n sc = Some r \<longrightarrow> parse_unary m sc = Some r) \<and>
      (\<forall>sc r. parse_postfix n sc = Some r \<longrightarrow> parse_postfix m sc = Some r) \<and>
      (\<forall>postfix sc r. parse_postfix_loop n postfix sc = Some r \<longrightarrow> parse_postfix_loop m postfix sc = Some r) \<and>
      (\<forall>mk tok close sc r. parse_delimited n mk tok close sc = Some r \<longrightarrow> parse_delimited m mk tok close sc = Some r) \<and>
      (\<forall>what sc r. parse_primary n what sc = Some r \<longrightarrow> parse_primary m what sc = Some r))"

lemma fuel_le_Suc:
  assumes "fuel_le n m"
  shows "fuel_le (Suc n) (Suc m)"
proof -
  have m0: "parse_commas m sc = Some r" if "parse_commas n sc = Some r" for sc r
    using assms that unfolding fuel_le_def by simp
  have m1: "parse_commas_loop m args sc = Some r" if "parse_commas_loop n args sc = Some r" for args sc r
    using assms that unfolding fuel_le_def by simp
  have m2: "parse_semicolons m sc = Some r" if "parse_semicolons n sc = Some r" for sc r
    using assms that unfolding fuel_le_def by simp
  have m3: "parse_semicolons_loop m args sc = Some r" if "parse_semicolons_loop n args sc = Some r" for args sc r
    using assms that unfolding fuel_le_def by simp
  have m4: "parse_item m sc = Some r" if "parse_item n sc = Some r" for sc r
    using assms that unfolding fuel_le_def by simp
  have m5: "parse_disjunction m sc = Some r" if "parse_disjunction n sc = Some r" for sc r
    using assms that unfolding fuel_le_def by simp
  have m6: "parse_disjunction_loop m left sc = Some r" if "parse_disjunction_loop n left sc = Some r" for left sc r
    using assms that unfolding fuel_le_def by simp
  have m7: "parse_conjunction m sc = Some r" if "parse_conjunction n sc = Some r" for sc r
    using assms that unfolding fuel_le_def by simp
  have m8: "parse_conjunction_loop m left sc = Some r" if "parse_conjunction_loop n left sc = Some r" for left sc r
    using assms that unfolding fuel_le_def by simp
  have m9: "parse_relation m sc = Some r" if "parse_relation n sc = Some r" for sc r
    using assms that unfolding fuel_le_def by simp
  have m10: "parse_range m sc = Some r" if "parse_range n sc = Some r" for sc r
    using assms that unfolding fuel_le_def by simp
  have m11: "parse_sum m sc = Some r" if "parse_sum n sc = Some r" for sc r
    using assms that unfolding fuel_le_def by simp
  have m12: "parse_sum_loop m left sc = Some r" if "parse_sum_loop n left sc = Some r" for left sc r
    using assms that unfolding fuel_le_def by simp
  have m13: "parse_product m sc = Some r" if "parse_product n sc = Some r" for sc r
    using assms that unfolding fuel_le_def by simp
  have m14: "parse_product_loop m left sc = Some r" if "parse_product_loop n left sc = Some r" for left sc r
    using assms that unfolding fuel_le_def by simp
  have m15: "parse_unary m sc = Some r" if "parse_unary n sc = Some r" for sc r
    using assms that unfolding fuel_le_def by simp
  have m16: "parse_postfix m sc = Some r" if "parse_postfix n sc = Some r" for sc r
    using assms that unfolding fuel_le_def by simp
  have m17: "parse_postfix_loop m postfix sc = Some r" if "parse_postfix_loop n postfix sc = Some r" for postfix sc r
    using assms that unfolding fuel_le_def by simp
  have m18: "parse_delimited m mk tok close sc = Some r" if "parse_delimited n mk tok close sc = Some r" for mk tok close sc r
    using assms that unfolding fuel_le_def by simp
  have m19: "parse_primary m what sc = Some r" if "parse_primary n what sc = Some r" for what sc r
    using assms that unfolding fuel_le_def by simp
  have "parse_commas (Suc m) sc = Some r" if "parse_commas (Suc n) sc = Some r" for sc r
    using that
    by (auto simp: split_beta ok_def throw_def elim!: and_thenE dest!: m0 m1 m2 m3 m4 m5 m6 m7 m8 m9 m10 m11 m12 m13 m14 m15 m16 m17 m18 m19
        split: if_splits option.splits phrase.splits)
moreover
  have "parse_commas_loop (Suc m) args sc = Some r" if "parse_commas_loop (Suc n) args sc = Some r" for args sc r
    using that
    by (auto simp: split_beta ok_def throw_def elim!: and_thenE dest!: m0 m1 m2 m3 m4 m5 m6 m7 m8 m9 m10 m11 m12 m13 m14 m15 m16 m17 m18 m19
        split: if_splits option.splits phrase.splits)
moreover
  have "parse_semicolons (Suc m) sc = Some r" if "parse_semicolons (Suc n) sc = Some r" for sc r
    using that
    by (auto simp: split_beta ok_def throw_def elim!: and_thenE dest!: m0 m1 m2 m3 m4 m5 m6 m7 m8 m9 m10 m11 m12 m13 m14 m15 m16 m17 m18 m19
        split: if_splits option.splits phrase.splits)
moreover
  have "parse_semicolons_loop (Suc m) args sc = Some r" if "parse_semicolons_loop (Suc n) args sc = Some r" for args sc r
    using that
    by (auto simp: split_beta ok_def throw_def elim!: and_thenE dest!: m0 m1 m2 m3 m4 m5 m6 m7 m8 m9 m10 m11 m12 m13 m14 m15 m16 m17 m18 m19
        split: if_splits option.splits phrase.splits)
moreover
  have "parse_item (Suc m) sc = Some r" if "parse_item (Suc n) sc = Some r" for sc r
    using that
    by (auto simp: split_beta ok_def throw_def elim!: and_thenE dest!: m0 m1 m2 m3 m4 m5 m6 m7 m8 m9 m10 m11 m12 m13 m14 m15 m16 m17 m18 m19
        split: if_splits option.splits phrase.splits)
moreover
  have "parse_disjunction (Suc m) sc = Some r" if "parse_disjunction (Suc n) sc = Some r" for sc r
    using that
    by (auto simp: split_beta ok_def throw_def elim!: and_thenE dest!: m0 m1 m2 m3 m4 m5 m6 m7 m8 m9 m10 m11 m12 m13 m14 m15 m16 m17 m18 m19
        split: if_splits option.splits phrase.splits)
moreover
  have "parse_disjunction_loop (Suc m) left sc = Some r" if "parse_disjunction_loop (Suc n) left sc = Some r" for left sc r
    using that
    by (auto simp: split_beta ok_def throw_def elim!: and_thenE dest!: m0 m1 m2 m3 m4 m5 m6 m7 m8 m9 m10 m11 m12 m13 m14 m15 m16 m17 m18 m19
        split: if_splits option.splits phrase.splits)
moreover
  have "parse_conjunction (Suc m) sc = Some r" if "parse_conjunction (Suc n) sc = Some r" for sc r
    using that
    by (auto simp: split_beta ok_def throw_def elim!: and_thenE dest!: m0 m1 m2 m3 m4 m5 m6 m7 m8 m9 m10 m11 m12 m13 m14 m15 m16 m17 m18 m19
        split: if_splits option.splits phrase.splits)
moreover
  have "parse_conjunction_loop (Suc m) left sc = Some r" if "parse_conjunction_loop (Suc n) left sc = Some r" for left sc r
    using that
    by (auto simp: split_beta ok_def throw_def elim!: and_thenE dest!: m0 m1 m2 m3 m4 m5 m6 m7 m8 m9 m10 m11 m12 m13 m14 m15 m16 m17 m18 m19
        split: if_splits option.splits phrase.splits)
moreover
  have "parse_relation (Suc m) sc = Some r" if "parse_relation (Suc n) sc = Some r" for sc r
    using that
    by (auto simp: split_beta ok_def throw_def elim!: and_thenE dest!: m0 m1 m2 m3 m4 m5 m6 m7 m8 m9 m10 m11 m12 m13 m14 m15 m16 m17 m18 m19
        split: if_splits option.splits phrase.splits)
moreover
  have "parse_range (Suc m) sc = Some r" if "parse_range (Suc n) sc = Some r" for sc r
    using that
    by (auto simp: split_beta ok_def throw_def elim!: and_thenE dest!: m0 m1 m2 m3 m4 m5 m6 m7 m8 m9 m10 m11 m12 m13 m14 m15 m16 m17 m18 m19
        split: if_splits option.splits phrase.splits)
moreover
  have "parse_sum (Suc m) sc = Some r" if "parse_sum (Suc n) sc = Some r" for sc r
    using that
    by (auto simp: split_beta ok_def throw_def elim!: and_thenE dest!: m0 m1 m2 m3 m4 m5 m6 m7 m8 m9 m10 m11 m12 m13 m14 m15 m16 m17 m18 m19
        split: if_splits option.splits phrase.splits)
moreover
  have "parse_sum_loop (Suc m) left sc = Some r" if "parse_sum_loop (Suc n) left sc = Some r" for left sc r
    using that
    by (auto simp: split_beta ok_def throw_def elim!: and_thenE dest!: m0 m1 m2 m3 m4 m5 m6 m7 m8 m9 m10 m11 m12 m13 m14 m15 m16 m17 m18 m19
        split: if_splits option.splits phrase.splits)
moreover
  have "parse_product (Suc m) sc = Some r" if "parse_product (Suc n) sc = Some r" for sc r
    using that
    by (auto simp: split_beta ok_def throw_def elim!: and_thenE dest!: m0 m1 m2 m3 m4 m5 m6 m7 m8 m9 m10 m11 m12 m13 m14 m15 m16 m17 m18 m19
        split: if_splits option.splits phrase.splits)
moreover
  have "parse_product_loop (Suc m) left sc = Some r" if "parse_product_loop (Suc n) left sc = Some r" for left sc r
    using that
    by (auto simp: split_beta ok_def throw_def elim!: and_thenE dest!: m0 m1 m2 m3 m4 m5 m6 m7 m8 m9 m10 m11 m12 m13 m14 m15 m16 m17 m18 m19
        split: if_splits option.splits phrase.splits)
moreover
  have "parse_unary (Suc m) sc = Some r" if "parse_unary (Suc n) sc = Some r" for sc r
    using that
    by (auto simp: split_beta ok_def throw_def elim!: and_thenE dest!: m0 m1 m2 m3 m4 m5 m6 m7 m8 m9 m10 m11 m12 m13 m14 m15 m16 m17 m18 m19
        split: if_splits option.splits phrase.splits)
moreover
  have "parse_postfix (Suc m) sc = Some r" if "parse_postfix (Suc n) sc = Some r" for sc r
    using that
    by (auto simp: split_beta ok_def throw_def elim!: and_thenE dest!: m0 m1 m2 m3 m4 m5 m6 m7 m8 m9 m10 m11 m12 m13 m14 m15 m16 m17 m18 m19
        split: if_splits option.splits phrase.splits)
moreover
  have "parse_postfix_loop (Suc m) postfix sc = Some r" if "parse_postfix_loop (Suc n) postfix sc = Some r" for postfix sc r
    using that
    by (auto simp: split_beta ok_def throw_def elim!: and_thenE dest!: m0 m1 m2 m3 m4 m5 m6 m7 m8 m9 m10 m11 m12 m13 m14 m15 m16 m17 m18 m19
        split: if_splits option.splits phrase.splits)
moreover
  have "parse_delimited (Suc m) mk tok close sc = Some r" if "parse_delimited (Suc n) mk tok close sc = Some r" for mk tok close sc r
    using that
    by (auto simp: split_beta ok_def throw_def elim!: and_thenE dest!: m0 m1 m2 m3 m4 m5 m6 m7 m8 m9 m10 m11 m12 m13 m14 m15 m16 m17 m18 m19
        split: if_splits option.splits phrase.splits)
moreover
  have "parse_primary (Suc m) what sc = Some r" if "parse_primary (Suc n) what sc = Some r" for what sc r
    using that
    by (auto simp: split_beta ok_def throw_def elim!: and_thenE dest!: m0 m1 m2 m3 m4 m5 m6 m7 m8 m9 m10 m11 m12 m13 m14 m15 m16 m17 m18 m19
        split: if_splits option.splits phrase.splits)
  ultimately show ?thesis
    unfolding fuel_le_def by blast
qed

lemma fuel_le_0: "fuel_le 0 m"
  by (simp add: fuel_le_def)

lemma fuel_le_add: "fuel_le n (n + k)"
  by (induction n) (simp_all add: fuel_le_0 fuel_le_Suc)

text \<open>
  The shapes of the phrases that the functions return. Below \<open>parse_semicolons\<close> no
  function returns a comma phrase, a semicolon phrase or an empty phrase (\<open>plain\<close>);
  a list that a loop has built has a separator after its first element when it has
  no second one (\<open>separated\<close>).
\<close>

fun plain :: "phrase \<Rightarrow> bool" where
  "plain (Comma_Phrase args) = False"
| "plain (Semicolon_Phrase args) = False"
| "plain (Empty_Phrase t) = False"
| "plain p = True"

definition separated :: "token_kind \<Rightarrow> (phrase \<times> token) list \<Rightarrow> bool" where
  "separated k args = (args \<noteq> [] \<and> (length args = 1 \<longrightarrow> kind (snd (args ! 0)) = k))"

definition item_shape :: "phrase \<Rightarrow> bool" where
  "item_shape p = ((\<exists>as. p = Semicolon_Phrase as \<and> separated k_semicolon as) \<or> plain p)"

definition list_shape :: "phrase \<Rightarrow> bool" where
  "list_shape p =
     ((\<exists>t. p = Empty_Phrase t) \<or> (\<exists>as. p = Comma_Phrase as \<and> separated k_comma as) \<or> item_shape p)"

definition shapes :: "nat \<Rightarrow> bool" where
  "shapes n =
     ((\<forall>sc p sc'. parse_commas n sc = Some (Inr (p, sc')) \<longrightarrow> list_shape p) \<and>
      (\<forall>args sc p sc'. parse_commas_loop n args sc = Some (Inr (p, sc')) \<longrightarrow> (\<exists>as. p = Comma_Phrase as \<and> separated k_comma as) \<or> (args = [] \<and> item_shape p)) \<and>
      (\<forall>sc p sc'. parse_semicolons n sc = Some (Inr (p, sc')) \<longrightarrow> item_shape p) \<and>
      (\<forall>args sc p sc'. parse_semicolons_loop n args sc = Some (Inr (p, sc')) \<longrightarrow> (\<exists>as. p = Semicolon_Phrase as \<and> separated k_semicolon as) \<or> (args = [] \<and> plain p)) \<and>
      (\<forall>sc p sc'. parse_item n sc = Some (Inr (p, sc')) \<longrightarrow> plain p) \<and>
      (\<forall>sc p sc'. parse_disjunction n sc = Some (Inr (p, sc')) \<longrightarrow> plain p) \<and>
      (\<forall>left sc p sc'. parse_disjunction_loop n left sc = Some (Inr (p, sc')) \<longrightarrow> plain left \<longrightarrow> plain p) \<and>
      (\<forall>sc p sc'. parse_conjunction n sc = Some (Inr (p, sc')) \<longrightarrow> plain p) \<and>
      (\<forall>left sc p sc'. parse_conjunction_loop n left sc = Some (Inr (p, sc')) \<longrightarrow> plain left \<longrightarrow> plain p) \<and>
      (\<forall>sc p sc'. parse_relation n sc = Some (Inr (p, sc')) \<longrightarrow> plain p) \<and>
      (\<forall>sc p sc'. parse_range n sc = Some (Inr (p, sc')) \<longrightarrow> plain p) \<and>
      (\<forall>sc p sc'. parse_sum n sc = Some (Inr (p, sc')) \<longrightarrow> plain p) \<and>
      (\<forall>left sc p sc'. parse_sum_loop n left sc = Some (Inr (p, sc')) \<longrightarrow> plain left \<longrightarrow> plain p) \<and>
      (\<forall>sc p sc'. parse_product n sc = Some (Inr (p, sc')) \<longrightarrow> plain p) \<and>
      (\<forall>left sc p sc'. parse_product_loop n left sc = Some (Inr (p, sc')) \<longrightarrow> plain left \<longrightarrow> plain p) \<and>
      (\<forall>sc p sc'. parse_unary n sc = Some (Inr (p, sc')) \<longrightarrow> plain p) \<and>
      (\<forall>sc p sc'. parse_postfix n sc = Some (Inr (p, sc')) \<longrightarrow> plain p) \<and>
      (\<forall>postfix sc p sc'. parse_postfix_loop n postfix sc = Some (Inr (p, sc')) \<longrightarrow> plain postfix \<longrightarrow> plain p) \<and>
      (\<forall>mk tok close sc p sc'. parse_delimited n mk tok close sc = Some (Inr (p, sc')) \<longrightarrow> (\<forall>t as t'. plain (mk t as t')) \<longrightarrow> plain p) \<and>
      (\<forall>what sc p sc'. parse_primary n what sc = Some (Inr (Some p, sc')) \<longrightarrow> plain p))"

lemma shapes_Suc:
  assumes "shapes n"
  shows "shapes (Suc n)"
proof -
  note s0 = assms [unfolded shapes_def, THEN conjunct1, rule_format]
  note s1 = assms [unfolded shapes_def, THEN conjunct2, THEN conjunct1, rule_format]
  note s2 = assms [unfolded shapes_def, THEN conjunct2, THEN conjunct2, THEN conjunct1, rule_format]
  note s3 = assms [unfolded shapes_def, THEN conjunct2, THEN conjunct2, THEN conjunct2, THEN conjunct1, rule_format]
  note s4 = assms [unfolded shapes_def, THEN conjunct2, THEN conjunct2, THEN conjunct2, THEN conjunct2, THEN conjunct1, rule_format]
  note s5 = assms [unfolded shapes_def, THEN conjunct2, THEN conjunct2, THEN conjunct2, THEN conjunct2, THEN conjunct2, THEN conjunct1, rule_format]
  note s6 = assms [unfolded shapes_def, THEN conjunct2, THEN conjunct2, THEN conjunct2, THEN conjunct2, THEN conjunct2, THEN conjunct2, THEN conjunct1, rule_format]
  note s7 = assms [unfolded shapes_def, THEN conjunct2, THEN conjunct2, THEN conjunct2, THEN conjunct2, THEN conjunct2, THEN conjunct2, THEN conjunct2, THEN conjunct1, rule_format]
  note s8 = assms [unfolded shapes_def, THEN conjunct2, THEN conjunct2, THEN conjunct2, THEN conjunct2, THEN conjunct2, THEN conjunct2, THEN conjunct2, THEN conjunct2, THEN conjunct1, rule_format]
  note s9 = assms [unfolded shapes_def, THEN conjunct2, THEN conjunct2, THEN conjunct2, THEN conjunct2, THEN conjunct2, THEN conjunct2, THEN conjunct2, THEN conjunct2, THEN conjunct2, THEN conjunct1, rule_format]
  note s10 = assms [unfolded shapes_def, THEN conjunct2, THEN conjunct2, THEN conjunct2, THEN conjunct2, THEN conjunct2, THEN conjunct2, THEN conjunct2, THEN conjunct2, THEN conjunct2, THEN conjunct2, THEN conjunct1, rule_format]
  note s11 = assms [unfolded shapes_def, THEN conjunct2, THEN conjunct2, THEN conjunct2, THEN conjunct2, THEN conjunct2, THEN conjunct2, THEN conjunct2, THEN conjunct2, THEN conjunct2, THEN conjunct2, THEN conjunct2, THEN conjunct1, rule_format]
  note s12 = assms [unfolded shapes_def, THEN conjunct2, THEN conjunct2, THEN conjunct2, THEN conjunct2, THEN conjunct2, THEN conjunct2, THEN conjunct2, THEN conjunct2, THEN conjunct2, THEN conjunct2, THEN conjunct2, THEN conjunct2, THEN conjunct1, rule_format]
  note s13 = assms [unfolded shapes_def, THEN conjunct2, THEN conjunct2, THEN conjunct2, THEN conjunct2, THEN conjunct2, THEN conjunct2, THEN conjunct2, THEN conjunct2, THEN conjunct2, THEN conjunct2, THEN conjunct2, THEN conjunct2, THEN conjunct2, THEN conjunct1, rule_format]
  note s14 = assms [unfolded shapes_def, THEN conjunct2, THEN conjunct2, THEN conjunct2, THEN conjunct2, THEN conjunct2, THEN conjunct2, THEN conjunct2, THEN conjunct2, THEN conjunct2, THEN conjunct2, THEN conjunct2, THEN conjunct2, THEN conjunct2, THEN conjunct2, THEN conjunct1, rule_format]
  note s15 = assms [unfolded shapes_def, THEN conjunct2, THEN conjunct2, THEN conjunct2, THEN conjunct2, THEN conjunct2, THEN conjunct2, THEN conjunct2, THEN conjunct2, THEN conjunct2, THEN conjunct2, THEN conjunct2, THEN conjunct2, THEN conjunct2, THEN conjunct2, THEN conjunct2, THEN conjunct1, rule_format]
  note s16 = assms [unfolded shapes_def, THEN conjunct2, THEN conjunct2, THEN conjunct2, THEN conjunct2, THEN conjunct2, THEN conjunct2, THEN conjunct2, THEN conjunct2, THEN conjunct2, THEN conjunct2, THEN conjunct2, THEN conjunct2, THEN conjunct2, THEN conjunct2, THEN conjunct2, THEN conjunct2, THEN conjunct1, rule_format]
  note s17 = assms [unfolded shapes_def, THEN conjunct2, THEN conjunct2, THEN conjunct2, THEN conjunct2, THEN conjunct2, THEN conjunct2, THEN conjunct2, THEN conjunct2, THEN conjunct2, THEN conjunct2, THEN conjunct2, THEN conjunct2, THEN conjunct2, THEN conjunct2, THEN conjunct2, THEN conjunct2, THEN conjunct2, THEN conjunct1, rule_format]
  note s18 = assms [unfolded shapes_def, THEN conjunct2, THEN conjunct2, THEN conjunct2, THEN conjunct2, THEN conjunct2, THEN conjunct2, THEN conjunct2, THEN conjunct2, THEN conjunct2, THEN conjunct2, THEN conjunct2, THEN conjunct2, THEN conjunct2, THEN conjunct2, THEN conjunct2, THEN conjunct2, THEN conjunct2, THEN conjunct2, THEN conjunct1, rule_format]
  note s19 = assms [unfolded shapes_def, THEN conjunct2, THEN conjunct2, THEN conjunct2, THEN conjunct2, THEN conjunct2, THEN conjunct2, THEN conjunct2, THEN conjunct2, THEN conjunct2, THEN conjunct2, THEN conjunct2, THEN conjunct2, THEN conjunct2, THEN conjunct2, THEN conjunct2, THEN conjunct2, THEN conjunct2, THEN conjunct2, THEN conjunct2, rule_format]
  have "list_shape p" if "parse_commas (Suc n) sc = Some (Inr (p, sc'))" for sc p sc'
    using that
    by (auto simp: split_beta ok_def throw_def list_shape_def item_shape_def separated_def
        elim!: and_thenE dest!: s0 s1 s2 s3 s4 s5 s6 s7 s8 s9 s10 s11 s12 s13 s14 s15 s16 s17 s18 s19
        split: if_splits option.splits phrase.splits)
moreover
  have "(\<exists>as. p = Comma_Phrase as \<and> separated k_comma as) \<or> (args = [] \<and> item_shape p)" if "parse_commas_loop (Suc n) args sc = Some (Inr (p, sc'))" for args sc p sc'
    using that
    by (auto simp: split_beta ok_def throw_def list_shape_def item_shape_def separated_def
        elim!: and_thenE dest!: s0 s1 s2 s3 s4 s5 s6 s7 s8 s9 s10 s11 s12 s13 s14 s15 s16 s17 s18 s19
        split: if_splits option.splits phrase.splits)
moreover
  have "item_shape p" if "parse_semicolons (Suc n) sc = Some (Inr (p, sc'))" for sc p sc'
    using that
    by (auto simp: split_beta ok_def throw_def list_shape_def item_shape_def separated_def
        elim!: and_thenE dest!: s0 s1 s2 s3 s4 s5 s6 s7 s8 s9 s10 s11 s12 s13 s14 s15 s16 s17 s18 s19
        split: if_splits option.splits phrase.splits)
moreover
  have "(\<exists>as. p = Semicolon_Phrase as \<and> separated k_semicolon as) \<or> (args = [] \<and> plain p)" if "parse_semicolons_loop (Suc n) args sc = Some (Inr (p, sc'))" for args sc p sc'
    using that
    by (auto simp: split_beta ok_def throw_def list_shape_def item_shape_def separated_def
        elim!: and_thenE dest!: s0 s1 s2 s3 s4 s5 s6 s7 s8 s9 s10 s11 s12 s13 s14 s15 s16 s17 s18 s19
        split: if_splits option.splits phrase.splits)
moreover
  have "plain p" if "parse_item (Suc n) sc = Some (Inr (p, sc'))" for sc p sc'
    using that
    by (auto simp: split_beta ok_def throw_def list_shape_def item_shape_def separated_def
        elim!: and_thenE dest!: s0 s1 s2 s3 s4 s5 s6 s7 s8 s9 s10 s11 s12 s13 s14 s15 s16 s17 s18 s19
        split: if_splits option.splits phrase.splits)
moreover
  have "plain p" if "parse_disjunction (Suc n) sc = Some (Inr (p, sc'))" for sc p sc'
    using that
    by (auto simp: split_beta ok_def throw_def list_shape_def item_shape_def separated_def
        elim!: and_thenE dest!: s0 s1 s2 s3 s4 s5 s6 s7 s8 s9 s10 s11 s12 s13 s14 s15 s16 s17 s18 s19
        split: if_splits option.splits phrase.splits)
moreover
  have "plain left \<longrightarrow> plain p" if "parse_disjunction_loop (Suc n) left sc = Some (Inr (p, sc'))" for left sc p sc'
    using that
    by (auto simp: split_beta ok_def throw_def list_shape_def item_shape_def separated_def
        elim!: and_thenE dest!: s0 s1 s2 s3 s4 s5 s6 s7 s8 s9 s10 s11 s12 s13 s14 s15 s16 s17 s18 s19
        split: if_splits option.splits phrase.splits)
moreover
  have "plain p" if "parse_conjunction (Suc n) sc = Some (Inr (p, sc'))" for sc p sc'
    using that
    by (auto simp: split_beta ok_def throw_def list_shape_def item_shape_def separated_def
        elim!: and_thenE dest!: s0 s1 s2 s3 s4 s5 s6 s7 s8 s9 s10 s11 s12 s13 s14 s15 s16 s17 s18 s19
        split: if_splits option.splits phrase.splits)
moreover
  have "plain left \<longrightarrow> plain p" if "parse_conjunction_loop (Suc n) left sc = Some (Inr (p, sc'))" for left sc p sc'
    using that
    by (auto simp: split_beta ok_def throw_def list_shape_def item_shape_def separated_def
        elim!: and_thenE dest!: s0 s1 s2 s3 s4 s5 s6 s7 s8 s9 s10 s11 s12 s13 s14 s15 s16 s17 s18 s19
        split: if_splits option.splits phrase.splits)
moreover
  have "plain p" if "parse_relation (Suc n) sc = Some (Inr (p, sc'))" for sc p sc'
    using that
    by (auto simp: split_beta ok_def throw_def list_shape_def item_shape_def separated_def
        elim!: and_thenE dest!: s0 s1 s2 s3 s4 s5 s6 s7 s8 s9 s10 s11 s12 s13 s14 s15 s16 s17 s18 s19
        split: if_splits option.splits phrase.splits)
moreover
  have "plain p" if "parse_range (Suc n) sc = Some (Inr (p, sc'))" for sc p sc'
    using that
    by (auto simp: split_beta ok_def throw_def list_shape_def item_shape_def separated_def
        elim!: and_thenE dest!: s0 s1 s2 s3 s4 s5 s6 s7 s8 s9 s10 s11 s12 s13 s14 s15 s16 s17 s18 s19
        split: if_splits option.splits phrase.splits)
moreover
  have "plain p" if "parse_sum (Suc n) sc = Some (Inr (p, sc'))" for sc p sc'
    using that
    by (auto simp: split_beta ok_def throw_def list_shape_def item_shape_def separated_def
        elim!: and_thenE dest!: s0 s1 s2 s3 s4 s5 s6 s7 s8 s9 s10 s11 s12 s13 s14 s15 s16 s17 s18 s19
        split: if_splits option.splits phrase.splits)
moreover
  have "plain left \<longrightarrow> plain p" if "parse_sum_loop (Suc n) left sc = Some (Inr (p, sc'))" for left sc p sc'
    using that
    by (auto simp: split_beta ok_def throw_def list_shape_def item_shape_def separated_def
        elim!: and_thenE dest!: s0 s1 s2 s3 s4 s5 s6 s7 s8 s9 s10 s11 s12 s13 s14 s15 s16 s17 s18 s19
        split: if_splits option.splits phrase.splits)
moreover
  have "plain p" if "parse_product (Suc n) sc = Some (Inr (p, sc'))" for sc p sc'
    using that
    by (auto simp: split_beta ok_def throw_def list_shape_def item_shape_def separated_def
        elim!: and_thenE dest!: s0 s1 s2 s3 s4 s5 s6 s7 s8 s9 s10 s11 s12 s13 s14 s15 s16 s17 s18 s19
        split: if_splits option.splits phrase.splits)
moreover
  have "plain left \<longrightarrow> plain p" if "parse_product_loop (Suc n) left sc = Some (Inr (p, sc'))" for left sc p sc'
    using that
    by (auto simp: split_beta ok_def throw_def list_shape_def item_shape_def separated_def
        elim!: and_thenE dest!: s0 s1 s2 s3 s4 s5 s6 s7 s8 s9 s10 s11 s12 s13 s14 s15 s16 s17 s18 s19
        split: if_splits option.splits phrase.splits)
moreover
  have "plain p" if "parse_unary (Suc n) sc = Some (Inr (p, sc'))" for sc p sc'
    using that
    by (auto simp: split_beta ok_def throw_def list_shape_def item_shape_def separated_def
        elim!: and_thenE dest!: s0 s1 s2 s3 s4 s5 s6 s7 s8 s9 s10 s11 s12 s13 s14 s15 s16 s17 s18 s19
        split: if_splits option.splits phrase.splits)
moreover
  have "plain p" if "parse_postfix (Suc n) sc = Some (Inr (p, sc'))" for sc p sc'
    using that
    by (auto simp: split_beta ok_def throw_def list_shape_def item_shape_def separated_def
        elim!: and_thenE dest!: s0 s1 s2 s3 s4 s5 s6 s7 s8 s9 s10 s11 s12 s13 s14 s15 s16 s17 s18 s19
        split: if_splits option.splits phrase.splits)
moreover
  have "plain postfix \<longrightarrow> plain p" if "parse_postfix_loop (Suc n) postfix sc = Some (Inr (p, sc'))" for postfix sc p sc'
    using that
    by (auto simp: split_beta ok_def throw_def list_shape_def item_shape_def separated_def
        elim!: and_thenE dest!: s0 s1 s2 s3 s4 s5 s6 s7 s8 s9 s10 s11 s12 s13 s14 s15 s16 s17 s18 s19
        split: if_splits option.splits phrase.splits)
moreover
  have "(\<forall>t as t'. plain (mk t as t')) \<longrightarrow> plain p" if "parse_delimited (Suc n) mk tok close sc = Some (Inr (p, sc'))" for mk tok close sc p sc'
    using that
    by (auto simp: split_beta ok_def throw_def list_shape_def item_shape_def separated_def
        elim!: and_thenE dest!: s0 s1 s2 s3 s4 s5 s6 s7 s8 s9 s10 s11 s12 s13 s14 s15 s16 s17 s18 s19
        split: if_splits option.splits phrase.splits)
moreover
  have "plain p" if "parse_primary (Suc n) what sc = Some (Inr (Some p, sc'))" for what sc p sc'
    using that
    by (auto simp: split_beta ok_def throw_def list_shape_def item_shape_def separated_def
        elim!: and_thenE dest!: s0 s1 s2 s3 s4 s5 s6 s7 s8 s9 s10 s11 s12 s13 s14 s15 s16 s17 s18 s19
        split: if_splits option.splits phrase.splits)
  ultimately show ?thesis
    unfolding shapes_def by blast
qed

lemma shapes_all: "shapes n"
  by (induction n) (simp_all add: shapes_def [of 0] shapes_Suc)

lemma fuel_mono:
  assumes "n \<le> m"
  shows "parse_commas n sc = Some r \<Longrightarrow> parse_commas m sc = Some r"
    and "parse_semicolons n sc = Some r \<Longrightarrow> parse_semicolons m sc = Some r"
    and "parse_item n sc = Some r \<Longrightarrow> parse_item m sc = Some r"
proof -
  from assms obtain k where "m = n + k" by (auto simp: le_iff_add)
  with fuel_le_add [of n k] have "fuel_le n m" by simp
  then show "parse_commas n sc = Some r \<Longrightarrow> parse_commas m sc = Some r"
    and "parse_semicolons n sc = Some r \<Longrightarrow> parse_semicolons m sc = Some r"
    and "parse_item n sc = Some r \<Longrightarrow> parse_item m sc = Some r"
    unfolding fuel_le_def by simp_all
qed

lemma parse_commas_shape:
  "parse_commas n sc = Some (Inr (p, sc')) \<Longrightarrow> list_shape p"
  by (rule shapes_all [of n, unfolded shapes_def, THEN conjunct1, rule_format])

lemma parse_semicolons_shape:
  "parse_semicolons n sc = Some (Inr (p, sc')) \<Longrightarrow> item_shape p"
  by (rule shapes_all [of n, unfolded shapes_def, THEN conjunct2, THEN conjunct2,
      THEN conjunct1, rule_format])

text \<open>
  C9. When the input does not start with a token that ends a list,
  \<open>parse_semicolons\<close> returns \<open>semis\<close>, and the next token ends the list (one element,
  no separator after it), \<open>parse_commas\<close> returns \<open>semis\<close> itself, with every number of
  calls from two more than \<open>parse_semicolons\<close> took, and leaves that token in the
  scanner. Likewise \<open>parse_semicolons\<close> returns the \<open>item\<close> that \<open>parse_item\<close> returned
  when the next token ends the semicolon list. And a comma phrase or a semicolon
  phrase that these functions return is never a single element with a missing
  separator: it has an element, and when it has only one, the separator after it is
  the token \<open>,\<close> or \<open>;\<close> of the input.
\<close>

theorem list_collapse:
  "(\<not> is_list_end_token (kind (fst (get_token sc))) \<and>
    parse_semicolons n sc = Some (Inr (semis, sca)) \<and>
    is_list_end_token (kind (fst (get_token sca))) \<longrightarrow>
      (\<forall>m\<ge>n + 2. parse_commas m sc =
         Some (Inr (semis, push_token (fst (get_token sca)) (snd (get_token sca)))))) \<and>
   (parse_item n sc = Some (Inr (item, sca)) \<and>
    is_semicolon_end_token (kind (fst (get_token sca))) \<longrightarrow>
      (\<forall>m\<ge>n + 2. parse_semicolons m sc =
         Some (Inr (item, push_token (fst (get_token sca)) (snd (get_token sca)))))) \<and>
   (parse_commas k sc = Some (Inr (Comma_Phrase args, sc')) \<longrightarrow>
      args \<noteq> [] \<and> (length args = 1 \<longrightarrow> kind (snd (args ! 0)) = k_comma)) \<and>
   (parse_commas k sc = Some (Inr (Semicolon_Phrase args, sc')) \<longrightarrow>
      args \<noteq> [] \<and> (length args = 1 \<longrightarrow> kind (snd (args ! 0)) = k_semicolon)) \<and>
   (parse_semicolons k sc = Some (Inr (Semicolon_Phrase args, sc')) \<longrightarrow>
      args \<noteq> [] \<and> (length args = 1 \<longrightarrow> kind (snd (args ! 0)) = k_semicolon))"
proof (intro conjI impI allI)
  fix m
  assume a: "\<not> is_list_end_token (kind (fst (get_token sc))) \<and>
    parse_semicolons n sc = Some (Inr (semis, sca)) \<and>
    is_list_end_token (kind (fst (get_token sca)))" and m: "n + 2 \<le> m"
  then have "push_token (fst (get_token sc)) (snd (get_token sc)) = sc"
    by (intro peek_token not_end_tokens) simp
  moreover from a have "kind (fst (get_token sca)) \<noteq> k_comma"
    by (auto simp: is_list_end_token_def)
  ultimately have "parse_commas (Suc (Suc n)) sc =
        Some (Inr (semis, push_token (fst (get_token sca)) (snd (get_token sca))))"
    using a by (simp add: split_beta ok_def)
  with m show "parse_commas m sc =
        Some (Inr (semis, push_token (fst (get_token sca)) (snd (get_token sca))))"
    by (intro fuel_mono(1) [of "Suc (Suc n)" m]) simp_all
next
  fix m
  assume a: "parse_item n sc = Some (Inr (item, sca)) \<and>
    is_semicolon_end_token (kind (fst (get_token sca)))" and m: "n + 2 \<le> m"
  then have "kind (fst (get_token sca)) \<noteq> k_semicolon"
    by (auto simp: is_semicolon_end_token_def)
  with a have "parse_semicolons (Suc (Suc n)) sc =
        Some (Inr (item, push_token (fst (get_token sca)) (snd (get_token sca))))"
    by (simp add: split_beta ok_def)
  with m show "parse_semicolons m sc =
        Some (Inr (item, push_token (fst (get_token sca)) (snd (get_token sca))))"
    by (intro fuel_mono(2) [of "Suc (Suc n)" m]) simp_all
next
  assume "parse_commas k sc = Some (Inr (Comma_Phrase args, sc'))"
  from parse_commas_shape [OF this]
  show "args \<noteq> []" and "length args = 1 \<Longrightarrow> kind (snd (args ! 0)) = k_comma"
    by (simp_all add: list_shape_def item_shape_def separated_def)
next
  assume "parse_commas k sc = Some (Inr (Semicolon_Phrase args, sc'))"
  from parse_commas_shape [OF this]
  show "args \<noteq> []" and "length args = 1 \<Longrightarrow> kind (snd (args ! 0)) = k_semicolon"
    by (simp_all add: list_shape_def item_shape_def separated_def)
next
  assume "parse_semicolons k sc = Some (Inr (Semicolon_Phrase args, sc'))"
  from parse_semicolons_shape [OF this]
  show "args \<noteq> []" and "length args = 1 \<Longrightarrow> kind (snd (args ! 0)) = k_semicolon"
    by (simp_all add: item_shape_def separated_def)
qed

text \<open>The inputs \<open>a\<close>, \<open>a,\<close> and \<open>a;\<close>.\<close>

lemma parse_item_a:
  "parse_item 12 (Scanner ''a'' [tk k_ident 0 1]) =
   Some (Inr (Identifier (tk k_ident 0 1) ''a'', Scanner ''a'' [Token k_end 1 1 1]))"
  by (simp add: eval_nat_numeral tk_def ok_def lexeme_def)

lemma parse_semicolons_a:
  "parse_semicolons 14 (Scanner ''a'' [tk k_ident 0 1]) =
   Some (Inr (Identifier (tk k_ident 0 1) ''a'', Scanner ''a'' [Token k_end 1 1 1]))"
  by (simp add: eval_nat_numeral tk_def ok_def lexeme_def is_semicolon_end_token_def)

lemma parse_commas_a_comma:
  "parse_commas 16 (Scanner ''a,'' [tk k_ident 0 1, tk k_comma 1 2]) =
   Some (Inr (Comma_Phrase [(Identifier (tk k_ident 0 1) ''a'', tk k_comma 1 2)],
              Scanner ''a,'' [Token k_end 2 2 2]))"
  by (simp add: eval_nat_numeral tk_def ok_def lexeme_def is_semicolon_end_token_def
      is_list_end_token_def)

lemma parse_semicolons_a_semicolon:
  "parse_semicolons 16 (Scanner ''a;'' [tk k_ident 0 1, tk k_semicolon 1 2]) =
   Some (Inr (Semicolon_Phrase [(Identifier (tk k_ident 0 1) ''a'', tk k_semicolon 1 2)],
              Scanner ''a;'' [Token k_end 2 2 2]))"
  by (simp add: eval_nat_numeral tk_def ok_def lexeme_def is_semicolon_end_token_def)

lemma parse_commas_a_semicolon:
  "parse_commas 18 (Scanner ''a;'' [tk k_ident 0 1, tk k_semicolon 1 2]) =
   Some (Inr (Semicolon_Phrase [(Identifier (tk k_ident 0 1) ''a'', tk k_semicolon 1 2)],
              Scanner ''a;'' [Token k_end 2 2 2]))"
  by (simp add: eval_nat_numeral tk_def ok_def lexeme_def is_semicolon_end_token_def
      is_list_end_token_def)

text \<open>
  The claim at these inputs: \<open>a\<close> is returned as the identifier itself by both
  functions, \<open>a,\<close> as a comma phrase and \<open>a;\<close> as a semicolon phrase of one element
  with its separator.
\<close>

theorem list_collapse_witness:
  "parse_commas 16 (Scanner ''a'' [tk k_ident 0 1]) =
     Some (Inr (Identifier (tk k_ident 0 1) ''a'', Scanner ''a'' [Token k_end 1 1 1])) \<and>
   parse_semicolons 14 (Scanner ''a'' [tk k_ident 0 1]) =
     Some (Inr (Identifier (tk k_ident 0 1) ''a'', Scanner ''a'' [Token k_end 1 1 1])) \<and>
   kind (snd ([(Identifier (tk k_ident 0 1) ''a'', tk k_comma 1 2)] ! 0)) = k_comma \<and>
   kind (snd ([(Identifier (tk k_ident 0 1) ''a'', tk k_semicolon 1 2)] ! 0)) = k_semicolon"
proof -
  let ?a = "Identifier (tk k_ident 0 1) ''a''"
  let ?sc = "Scanner ''a'' [tk k_ident 0 1]"
  let ?sc1 = "Scanner ''a'' [Token k_end 1 1 1]"
  have e: "get_token ?sc1 = (Token k_end 1 1 1, Scanner ''a'' [])"
    "get_token ?sc = (tk k_ident 0 1, Scanner ''a'' [])"
    by simp_all
  note i1 = list_collapse [where sc = ?sc and n = 14 and semis = ?a and sca = ?sc1]
  from i1 [THEN conjunct1] parse_semicolons_a e
  have a: "parse_commas 16 ?sc = Some (Inr (?a, ?sc1))"
    by (simp add: is_list_end_token_def tk_def)
  note i2 = list_collapse [where sc = ?sc and n = 12 and item = ?a and sca = ?sc1]
  from i2 [THEN conjunct2, THEN conjunct1] parse_item_a e
  have b: "parse_semicolons 14 ?sc = Some (Inr (?a, ?sc1))"
    by (simp add: is_semicolon_end_token_def)
  note i3 = list_collapse [where sc = "Scanner ''a,'' [tk k_ident 0 1, tk k_comma 1 2]" and
      k = 16 and args = "[(?a, tk k_comma 1 2)]" and sc' = "Scanner ''a,'' [Token k_end 2 2 2]"]
  from i3 [THEN conjunct2, THEN conjunct2, THEN conjunct1] parse_commas_a_comma
  have c: "kind (snd ([(?a, tk k_comma 1 2)] ! 0)) = k_comma"
    by simp
  note i4 = list_collapse [where sc = "Scanner ''a;'' [tk k_ident 0 1, tk k_semicolon 1 2]" and
      k = 18 and args = "[(?a, tk k_semicolon 1 2)]" and sc' = "Scanner ''a;'' [Token k_end 2 2 2]"]
  from i4 [THEN conjunct2, THEN conjunct2, THEN conjunct2, THEN conjunct1] parse_commas_a_semicolon
  have d: "kind (snd ([(?a, tk k_semicolon 1 2)] ! 0)) = k_semicolon"
    by simp
  from a b c d show ?thesis by blast
qed

end
